theory Spec2Isabelle
  imports Complex_Main "HOL-Library.Multiset"
begin

section \<open>Blackjack: the game logic of script.js\<close>

text \<open>
  The script keeps the game in module-level variables and in a handful of DOM elements.
  The model passes them around as one record. Sprite drawing and sound synthesis
  (\<^verbatim>\<open>generateSprite\<close>, \<^verbatim>\<open>playSound\<close>) touch neither, and are left out.
\<close>

subsection \<open>Cards\<close>

text \<open>
  \<^verbatim>\<open>suits\<close> is the array of the four suit symbols, clubs, diamonds, hearts, spades in
  this order, and
  \<^verbatim>\<open>const ranks = ['2', '3', '4', '5', '6', '7', '8', '9', '10', 'J', 'Q', 'K', 'A']\<close>.
  The suit symbols are only compared and looked up, so they are a datatype; the ranks stay
  strings, since \<^verbatim>\<open>createDeck\<close> parses them. The array of ranks is written as three
  pieces appended.
\<close>

datatype suit = Clubs | Diamonds | Hearts | Spades

definition suits :: "suit list" where
  "suits = [Clubs, Diamonds, Hearts, Spades]"

definition ranks :: "string list" where
  "ranks = [''2'', ''3'', ''4'', ''5'', ''6''] @ [''7'', ''8'', ''9'', ''10''] @
           [''J'', ''Q'', ''K'', ''A'']"

text \<open>A card is the object \<^verbatim>\<open>{ rank: r, suit: s, value: value }\<close>.\<close>

record card =
  rank :: string
  suit :: suit
  "value" :: int

text \<open>
  \<^verbatim>\<open>parseInt(r)\<close> on a rank: the number written by the leading decimal digits, and
  \<^verbatim>\<open>NaN\<close> (here \<open>None\<close>) when there is none. Signs, white space and radix prefixes do not
  occur in \<open>ranks\<close> and are not modelled.
\<close>

definition isDigit :: "char \<Rightarrow> bool" where
  "isDigit c = (48 \<le> (of_char c :: nat) \<and> (of_char c :: nat) \<le> 57)"

definition digitVal :: "char \<Rightarrow> int" where
  "digitVal c = int (of_char c) - 48"

definition parseInt :: "string \<Rightarrow> int option" where
  "parseInt r =
     (case takeWhile isDigit r of
        [] \<Rightarrow> None
      | ds \<Rightarrow> Some (foldl (\<lambda>n c. 10 * n + digitVal c) 0 ds))"

text \<open>
  The body of the inner loop of \<^verbatim>\<open>createDeck\<close>:
  \<^verbatim>\<open>
    let value = parseInt(r);
    if (['J', 'Q', 'K'].includes(r)) value = 10;
    if (r === 'A') value = 11;
    deck.push({ rank: r, suit: s, value: value });
  \<close>
  The stored value is read with \<open>the\<close>: a \<^verbatim>\<open>NaN\<close> that survived both overrides would be
  left unspecified, and \<open>makeCard_value\<close> below shows that none does.
\<close>

definition makeCard :: "suit \<Rightarrow> string \<Rightarrow> card" where
  "makeCard s r =
     (let v0 = parseInt r;
          v1 = (if r \<in> set [''J'', ''Q'', ''K''] then Some 10 else v0);
          v2 = (if r = ''A'' then Some 11 else v1)
      in \<lparr> rank = r, suit = s, value = the v2 \<rparr>)"

text \<open>
  \<^verbatim>\<open>for (let s of suits) { for (let r of ranks) { ... deck.push(...) } }\<close> on the emptied
  array: the cards in the order they are pushed.
\<close>

definition newDeck :: "card list" where
  "newDeck = concat (map (\<lambda>s. map (\<lambda>r. makeCard s r) ranks) suits)"

subsection \<open>Scoring\<close>

text \<open>
  \<^verbatim>\<open>
  function calculateScore(hand) {
      let score = 0;
      let aces = 0;
      for (let c of hand) {
          score += c.value;
          if (c.rank === 'A') aces++;
      }
      while (score > 21 && aces > 0) {
          score -= 10;
          aces--;
      }
      return score;
  }
  \<close>
  The first loop is \<open>scoreLoop\<close>, which carries \<open>(score, aces)\<close>; the second is
  \<open>aceLoop\<close>, which is structural in \<open>aces\<close>.
\<close>

fun scoreLoop :: "card list \<Rightarrow> int \<times> nat \<Rightarrow> int \<times> nat" where
  "scoreLoop [] (score, aces) = (score, aces)"
| "scoreLoop (c # hand) (score, aces) =
     scoreLoop hand (score + value c, if rank c = ''A'' then aces + 1 else aces)"

fun aceLoop :: "int \<Rightarrow> nat \<Rightarrow> int" where
  "aceLoop score 0 = score"
| "aceLoop score (Suc aces) = (if score > 21 then aceLoop (score - 10) aces else score)"

definition calculateScore :: "card list \<Rightarrow> int" where
  "calculateScore hand = (case scoreLoop hand (0, 0) of (score, aces) \<Rightarrow> aceLoop score aces)"

subsection \<open>The page and the game state\<close>

text \<open>
  What the script writes into the page. A card element is either the card back
  (\<^verbatim>\<open>createCardEl(card, true)\<close>) or the sprite cell of a face, whose column and row are
  \<^verbatim>\<open>ranksMap[card.rank]\<close> and \<^verbatim>\<open>suitsMap[card.suit]\<close>; a rank missing from \<^verbatim>\<open>ranksMap\<close>
  reads as \<^verbatim>\<open>undefined\<close>, here \<open>None\<close>.
\<close>

datatype cardEl = HiddenEl | FaceEl "nat option" nat

definition ranksMap :: "string \<Rightarrow> nat option" where
  "ranksMap = map_of [(''2'', 0), (''3'', 1), (''4'', 2), (''5'', 3), (''6'', 4), (''7'', 5),
     (''8'', 6), (''9'', 7), (''10'', 8), (''J'', 9), (''Q'', 10), (''K'', 11), (''A'', 12)]"

fun suitsMap :: "suit \<Rightarrow> nat" where
  "suitsMap Clubs = 0"
| "suitsMap Diamonds = 1"
| "suitsMap Hearts = 2"
| "suitsMap Spades = 3"

definition createCardEl :: "card \<Rightarrow> bool \<Rightarrow> cardEl" where
  "createCardEl c isHidden =
     (if isHidden then HiddenEl else FaceEl (ranksMap (rank c)) (suitsMap (suit c)))"

text \<open>
  The elements of \<^verbatim>\<open>els\<close>, each reduced to what the script sets on it: the children of the
  two hand containers, the two score texts (the dealer's is \<open>None\<close> while it reads
  \<^verbatim>\<open>Dealer: ?\<close>), the message overlay, the \<^verbatim>\<open>disabled\<close> flag of the three buttons and the
  three displayed counters.
\<close>

record dom =
  playerHandEls :: "cardEl list"
  dealerHandEls :: "cardEl list"
  playerScoreText :: int
  dealerScoreText :: "int option"
  msgText :: string
  msgColor :: string
  msgShow :: bool
  btnHitDisabled :: bool
  btnStandDisabled :: bool
  btnNewDisabled :: bool
  winCount :: nat
  lossCount :: nat
  bustCount :: nat

text \<open>
  The module-level variables. The three counters only ever count up from 0 and are natural
  numbers. \<open>randomCalls\<close> is not in the source: it counts the calls of \<^verbatim>\<open>Math.random()\<close>
  made so far, so that the \<open>k\<close>-th call can be read from a fixed sequence \<open>rnd\<close>.
\<close>

record game =
  deck :: "card list"
  playerHand :: "card list"
  dealerHand :: "card list"
  gameOver :: bool
  deckIndex :: nat
  wins :: nat
  losses :: nat
  busts :: nat
  randomCalls :: nat
  els :: dom

text \<open>
  A read of \<^verbatim>\<open>undefined.rank\<close> or \<^verbatim>\<open>undefined.value\<close> throws; it is the only exception the
  game logic can raise.
\<close>

datatype error = TypeError

subsection \<open>Deck management\<close>

definition createDeck :: "game \<Rightarrow> game" where
  "createDeck s = s\<lparr> deck := newDeck \<rparr>"

text \<open>
  \<^verbatim>\<open>Math.random()\<close> returns a number \<open>r\<close> with \<open>0 \<le> r < 1\<close>; \<open>rnd k\<close> is the result of the
  \<open>k\<close>-th call, and \<open>random_ok\<close> is that contract. The model computes
  \<^verbatim>\<open>Math.floor(Math.random() * (i + 1))\<close> over the rationals. In double arithmetic the
  product is rounded, which can change which index of \<open>0..i\<close> a given \<open>r\<close> selects but,
  for a deck of this size, never takes it out of that range; the statements below hold for
  every sequence \<open>rnd\<close>, so they do not depend on which index is selected.
\<close>

definition random_ok :: "(nat \<Rightarrow> rat) \<Rightarrow> bool" where
  "random_ok rnd = (\<forall>k. 0 \<le> rnd k \<and> rnd k < 1)"

text \<open>
  \<^verbatim>\<open>
  for (let i = deck.length - 1; i > 0; i--) {
      const j = Math.floor(Math.random() * (i + 1));
      [deck[i], deck[j]] = [deck[j], deck[i]];
  }
  \<close>
  \<open>shuffleLoop rnd k i d\<close> runs the loop from index \<open>i\<close> down, \<open>k\<close> being the number of
  the next random call. Both reads of the swap happen before both writes.
\<close>

fun shuffleLoop :: "(nat \<Rightarrow> rat) \<Rightarrow> nat \<Rightarrow> nat \<Rightarrow> 'a list \<Rightarrow> 'a list" where
  "shuffleLoop rnd k 0 d = d"
| "shuffleLoop rnd k (Suc i') d =
     (let i = Suc i';
          j = nat \<lfloor>rnd k * of_nat (i + 1)\<rfloor>
      in shuffleLoop rnd (k + 1) i' (d[i := d ! j, j := d ! i]))"

definition shuffleDeck :: "(nat \<Rightarrow> rat) \<Rightarrow> game \<Rightarrow> game" where
  "shuffleDeck rnd s =
     s\<lparr> deck := shuffleLoop rnd (randomCalls s) (length (deck s) - 1) (deck s),
        randomCalls := randomCalls s + (length (deck s) - 1),
        deckIndex := 0 \<rparr>"

text \<open>
  \<^verbatim>\<open>
  function dealCard() {
      if (deckIndex >= deck.length) { shuffleDeck(); }
      return deck[deckIndex++];
  }
  \<close>
  After the test the index is in range unless the deck is empty, where the read gives
  \<^verbatim>\<open>undefined\<close>, here \<open>None\<close>.
\<close>

definition dealCard :: "(nat \<Rightarrow> rat) \<Rightarrow> game \<Rightarrow> card option \<times> game" where
  "dealCard rnd s =
     (let s1 = (if deckIndex s \<ge> length (deck s) then shuffleDeck rnd s else s);
          c = (if deckIndex s1 < length (deck s1) then Some (deck s1 ! deckIndex s1) else None)
      in (c, s1\<lparr> deckIndex := deckIndex s1 + 1 \<rparr>))"

subsection \<open>Rendering and messages\<close>

text \<open>
  \<^verbatim>\<open>renderTable(showDealerHidden = false)\<close>: the player's cards face up; the dealer's card
  at index 0 face down unless \<^verbatim>\<open>showDealerHidden\<close>; the dealer's score only when
  \<^verbatim>\<open>showDealerHidden\<close>.
\<close>

definition renderTable :: "bool \<Rightarrow> game \<Rightarrow> game" where
  "renderTable showDealerHidden s =
     s\<lparr> els := (els s)\<lparr>
          playerHandEls := map (\<lambda>c. createCardEl c False) (playerHand s),
          dealerHandEls :=
            map (\<lambda>(index, c).
                   if index = 0 \<and> \<not> showDealerHidden then createCardEl c True
                   else createCardEl c False)
                (enumerate 0 (dealerHand s)),
          playerScoreText := calculateScore (playerHand s),
          dealerScoreText :=
            (if showDealerHidden then Some (calculateScore (dealerHand s)) else None) \<rparr> \<rparr>"

definition showMessage :: "string \<Rightarrow> string \<Rightarrow> game \<Rightarrow> game" where
  "showMessage text color s =
     s\<lparr> els := (els s)\<lparr> msgText := text, msgColor := color, msgShow := True \<rparr> \<rparr>"

definition hideMessage :: "game \<Rightarrow> game" where
  "hideMessage s = s\<lparr> els := (els s)\<lparr> msgShow := False \<rparr> \<rparr>"

definition endGame :: "game \<Rightarrow> game" where
  "endGame s =
     s\<lparr> gameOver := True,
        els := (els s)\<lparr> btnHitDisabled := True, btnStandDisabled := True,
                        btnNewDisabled := False \<rparr> \<rparr>"

definition updateStats :: "game \<Rightarrow> game" where
  "updateStats s =
     s\<lparr> els := (els s)\<lparr> winCount := wins s, lossCount := losses s, bustCount := busts s \<rparr> \<rparr>"

subsection \<open>The round\<close>

text \<open>
  \<^verbatim>\<open>handleRoundEnd\<close>: the five branches in the order of the source, then
  \<^verbatim>\<open>updateStats(); endGame();\<close>.
\<close>

definition handleRoundEnd :: "game \<Rightarrow> game" where
  "handleRoundEnd s =
     (let pScore = calculateScore (playerHand s);
          dScore = calculateScore (dealerHand s);
          s1 = renderTable True s;
          s2 = (if pScore > 21 then
                  (showMessage ''BUST! You lose.'' ''#ff4444'' s1)\<lparr> busts := busts s1 + 1 \<rparr>
                else if dScore > 21 then
                  (showMessage ''Dealer BUSTS! You Win!'' ''#4CAF50'' s1)\<lparr> wins := wins s1 + 1 \<rparr>
                else if pScore > dScore then
                  (showMessage ''You Win!'' ''#4CAF50'' s1)\<lparr> wins := wins s1 + 1 \<rparr>
                else if dScore > pScore then
                  (showMessage ''Dealer Wins.'' ''#ff4444'' s1)\<lparr> losses := losses s1 + 1 \<rparr>
                else
                  showMessage ''Push (Tie).'' ''#fff'' s1)
      in endGame (updateStats s2))"

text \<open>
  \<^verbatim>\<open>playerHand.push(dealCard())\<close> with an \<^verbatim>\<open>undefined\<close> card makes the next
  \<^verbatim>\<open>renderTable\<close> or \<^verbatim>\<open>calculateScore\<close> throw, before anything else happens; the model
  returns the error at the push.

  \<^verbatim>\<open>startNewGame\<close> resets the round, builds and shuffles a deck if there is none, deals
  player, dealer, player, dealer, renders with the dealer's first card face down, and ends
  the round at once when the player has 21.
\<close>

definition startNewGame :: "(nat \<Rightarrow> rat) \<Rightarrow> game \<Rightarrow> error + game" where
  "startNewGame rnd s =
     (let s0 = (hideMessage s)\<lparr> gameOver := False, playerHand := [], dealerHand := [] \<rparr>;
          s1 = s0\<lparr> els := (els s0)\<lparr> btnHitDisabled := False, btnStandDisabled := False,
                                    btnNewDisabled := True \<rparr> \<rparr>;
          s2 = (if length (deck s1) = 0 then shuffleDeck rnd (createDeck s1) else s1)
      in case dealCard rnd s2 of
           (None, _) \<Rightarrow> Inl TypeError
         | (Some c1, s3) \<Rightarrow>
      (case dealCard rnd (s3\<lparr> playerHand := playerHand s3 @ [c1] \<rparr>) of
           (None, _) \<Rightarrow> Inl TypeError
         | (Some c2, s4) \<Rightarrow>
      (case dealCard rnd (s4\<lparr> dealerHand := dealerHand s4 @ [c2] \<rparr>) of
           (None, _) \<Rightarrow> Inl TypeError
         | (Some c3, s5) \<Rightarrow>
      (case dealCard rnd (s5\<lparr> playerHand := playerHand s5 @ [c3] \<rparr>) of
           (None, _) \<Rightarrow> Inl TypeError
         | (Some c4, s6) \<Rightarrow>
             (let s7 = renderTable False (s6\<lparr> dealerHand := dealerHand s6 @ [c4] \<rparr>);
                  pScore = calculateScore (playerHand s7)
              in Inr (if pScore = 21 then handleRoundEnd s7 else s7))))))"

text \<open>
  \<^verbatim>\<open>playerHit\<close>: nothing when the round is over; otherwise one card to the player, and on
  a score above 21 the bust branch.
\<close>

definition playerHit :: "(nat \<Rightarrow> rat) \<Rightarrow> game \<Rightarrow> error + game" where
  "playerHit rnd s =
     (if gameOver s then Inr s
      else case dealCard rnd s of
             (None, _) \<Rightarrow> Inl TypeError
           | (Some c, s1) \<Rightarrow>
               (let s2 = renderTable False (s1\<lparr> playerHand := playerHand s1 @ [c] \<rparr>)
                in if calculateScore (playerHand s2) > 21 then
                     (let s3 = renderTable True s2;
                          s4 = (showMessage ''BUST! You lose.'' ''#ff4444'' s3)
                                 \<lparr> busts := busts s3 + 1 \<rparr>
                      in Inr (endGame (updateStats s4)))
                   else Inr s2))"

text \<open>
  \<^verbatim>\<open>
  async function playerStand() {
      if (gameOver) return;
      renderTable(true);
      let dScore = calculateScore(dealerHand);
      while (dScore < 17) {
          await new Promise(r => setTimeout(r, 600));
          playSound('card');
          dealerHand.push(dealCard());
          dScore = calculateScore(dealerHand);
          renderTable(true);
      }
      handleRoundEnd();
  }
  \<close>
  The function is asynchronous. A call runs up to the \<^verbatim>\<open>await\<close> and is suspended there;
  what follows runs when its timer fires, 600 ms later, after whatever other handlers have
  run in the meantime. The model cuts the function at the \<^verbatim>\<open>await\<close>.

  \<open>playerStand\<close> is the call, up to its first \<^verbatim>\<open>await\<close> or, when the loop is not entered,
  to its end. The second component is \<open>Some dScore\<close>, the local variable, when the call is
  suspended, and \<open>None\<close> when it has ended.

  \<open>playerStandResume\<close> is a suspended call from the \<^verbatim>\<open>await\<close> on, up to the next
  \<^verbatim>\<open>await\<close> or to its end. It starts with the draw: the test \<^verbatim>\<open>dScore < 17\<close> was made
  before the wait, on the \<open>dScore\<close> of that time, which the body overwrites before it is
  read again; and \<^verbatim>\<open>gameOver\<close> is not read again.
\<close>

definition playerStand :: "game \<Rightarrow> game \<times> int option" where
  "playerStand s =
     (if gameOver s then (s, None)
      else (let s1 = renderTable True s;
                dScore = calculateScore (dealerHand s1)
            in if dScore < 17 then (s1, Some dScore) else (handleRoundEnd s1, None)))"

definition playerStandResume ::
  "(nat \<Rightarrow> rat) \<Rightarrow> int \<Rightarrow> game \<Rightarrow> error + game \<times> int option" where
  "playerStandResume rnd dScore s =
     (case dealCard rnd s of
        (None, _) \<Rightarrow> Inl TypeError
      | (Some c, s1) \<Rightarrow>
          (let s2 = s1\<lparr> dealerHand := dealerHand s1 @ [c] \<rparr>;
               dScore' = calculateScore (dealerHand s2);
               s3 = renderTable True s2
           in if dScore' < 17 then Inr (s3, Some dScore')
              else Inr (handleRoundEnd s3, None)))"

subsection \<open>Loading the page and clicking\<close>

text \<open>
  The variables as the script initialises them, over the page \<open>d\<close> as loaded, and the
  three statements run at load time:
  \<^verbatim>\<open>createDeck(); shuffleDeck(); startNewGame();\<close>
\<close>

definition initial :: "dom \<Rightarrow> game" where
  "initial d =
     \<lparr> deck = [], playerHand = [], dealerHand = [], gameOver = False, deckIndex = 0,
       wins = 0, losses = 0, busts = 0, randomCalls = 0, els = d \<rparr>"

definition boot :: "(nat \<Rightarrow> rat) \<Rightarrow> dom \<Rightarrow> error + game" where
  "boot rnd d = startNewGame rnd (shuffleDeck rnd (createDeck (initial d)))"

text \<open>
  The three buttons call \<^verbatim>\<open>playerHit\<close>, \<^verbatim>\<open>playerStand\<close> and \<^verbatim>\<open>startNewGame\<close>; a
  disabled button delivers no click. What happens to the page is a click or the timer of
  a suspended call of \<^verbatim>\<open>playerStand\<close>. The state of the page is the game together with
  the suspended calls, the oldest first, each with its local \<^verbatim>\<open>dScore\<close>: all timers wait
  600 ms, so they fire in the order in which the calls were suspended. A call that is
  suspended again goes to the end of the list.

  \<open>fire\<close> is one such event and \<open>play\<close> a list of them, in any order of clicks and
  timers; it stops at the first exception.
\<close>

datatype click = ClickHit | ClickStand | ClickNew

datatype event = Click click | TimerFires

fun fire ::
  "(nat \<Rightarrow> rat) \<Rightarrow> event \<Rightarrow> game \<times> int list \<Rightarrow> error + game \<times> int list" where
  "fire rnd (Click ClickHit) (s, w) =
     (if btnHitDisabled (els s) then Inr (s, w)
      else map_sum id (\<lambda>s'. (s', w)) (playerHit rnd s))"
| "fire rnd (Click ClickStand) (s, w) =
     (if btnStandDisabled (els s) then Inr (s, w)
      else (case playerStand s of
              (s', None) \<Rightarrow> Inr (s', w)
            | (s', Some d) \<Rightarrow> Inr (s', w @ [d])))"
| "fire rnd (Click ClickNew) (s, w) =
     (if btnNewDisabled (els s) then Inr (s, w)
      else map_sum id (\<lambda>s'. (s', w)) (startNewGame rnd s))"
| "fire rnd TimerFires (s, []) = Inr (s, [])"
| "fire rnd TimerFires (s, d # w) =
     (case playerStandResume rnd d s of
        Inl e \<Rightarrow> Inl e
      | Inr (s', None) \<Rightarrow> Inr (s', w)
      | Inr (s', Some d') \<Rightarrow> Inr (s', w @ [d']))"

fun play ::
  "(nat \<Rightarrow> rat) \<Rightarrow> event list \<Rightarrow> game \<times> int list \<Rightarrow> error + game \<times> int list" where
  "play rnd [] sw = Inr sw"
| "play rnd (e # es) sw =
     (case fire rnd e sw of
        Inl err \<Rightarrow> Inl err
      | Inr sw' \<Rightarrow> play rnd es sw')"

text \<open>
  The player who lets the dealer finish: \<open>settle\<close> fires the timers until no call is
  suspended, which nothing in the script bounds, so that \<open>None\<close> is a wait that never
  ends; \<open>step\<close> is a click made while no call is suspended, followed by the timers of the
  call it makes; \<open>run\<close> is a list of such clicks. Every \<open>run\<close> is a \<open>play\<close>
  (\<open>run_is_play\<close> below), but not the other way round.
\<close>

partial_function (option) settle ::
  "(nat \<Rightarrow> rat) \<Rightarrow> game \<times> int list \<Rightarrow> (error + game) option" where
  "settle rnd sw =
     (if snd sw = [] then Some (Inr (fst sw))
      else (case fire rnd TimerFires sw of
              Inl e \<Rightarrow> Some (Inl e)
            | Inr sw' \<Rightarrow> settle rnd sw'))"

declare settle.simps [code]

definition step :: "(nat \<Rightarrow> rat) \<Rightarrow> click \<Rightarrow> game \<Rightarrow> (error + game) option" where
  "step rnd c s =
     (case fire rnd (Click c) (s, []) of
        Inl e \<Rightarrow> Some (Inl e)
      | Inr sw \<Rightarrow> settle rnd sw)"

fun run :: "(nat \<Rightarrow> rat) \<Rightarrow> click list \<Rightarrow> game \<Rightarrow> (error + game) option" where
  "run rnd [] s = Some (Inr s)"
| "run rnd (c # cs) s =
     (case step rnd c s of
        Some (Inr s') \<Rightarrow> run rnd cs s'
      | r \<Rightarrow> r)"

subsection \<open>The rules of blackjack, as the specification words them\<close>

text \<open>
  The value of a rank: 2 to 10 at face value, J, Q and K as 10, an ace as 11.
\<close>

definition blackjackValue :: "string \<Rightarrow> int" where
  "blackjackValue r =
     the (map_of [(''2'', 2), (''3'', 3), (''4'', 4), (''5'', 5), (''6'', 6), (''7'', 7),
       (''8'', 8), (''9'', 9), (''10'', 10), (''J'', 10), (''Q'', 10), (''K'', 10),
       (''A'', 11)] r)"

definition aceCount :: "card list \<Rightarrow> nat" where
  "aceCount hand = length (filter (\<lambda>c. rank c = ''A'') hand)"

text \<open>
  Every valuation of a hand, each ace counted as 1 or as 11; the total with every ace
  as 1; and the best score: the largest valuation that is at most 21 when there is one,
  otherwise the total with every ace as 1.
\<close>

fun valuations :: "card list \<Rightarrow> int list" where
  "valuations [] = [0]"
| "valuations (c # hand) =
     (if rank c = ''A''
      then map (\<lambda>v. 1 + v) (valuations hand) @ map (\<lambda>v. 11 + v) (valuations hand)
      else map (\<lambda>v. blackjackValue (rank c) + v) (valuations hand))"

definition hardTotal :: "card list \<Rightarrow> int" where
  "hardTotal hand = (\<Sum>c\<leftarrow>hand. if rank c = ''A'' then 1 else blackjackValue (rank c))"

definition bestScore :: "card list \<Rightarrow> int" where
  "bestScore hand =
     (let ok = filter (\<lambda>v. v \<le> 21) (valuations hand)
      in if ok = [] then hardTotal hand else Max (set ok))"

subsection \<open>Concrete pages, states and random sequences\<close>

text \<open>A page with nothing rendered yet and every button enabled.\<close>

definition blankPage :: dom where
  "blankPage =
     \<lparr> playerHandEls = [], dealerHandEls = [], playerScoreText = 0, dealerScoreText = None,
       msgText = [], msgColor = [], msgShow = False, btnHitDisabled = False,
       btnStandDisabled = False, btnNewDisabled = False, winCount = 0, lossCount = 0,
       bustCount = 0 \<rparr>"

text \<open>The freshly created deck, before any shuffle, on the blank page.\<close>

definition freshState :: game where
  "freshState = createDeck (initial blankPage)"

text \<open>A random sequence that always answers one half.\<close>

definition rndHalf :: "nat \<Rightarrow> rat" where
  "rndHalf k = 1 / 2"

subsection \<open>Measures used in the proofs\<close>

text \<open>
  The total of a hand with 10 taken off for every ace, which no score of the hand falls
  below, and the cards that add at least 1 to it.
\<close>

definition hardSum :: "card list \<Rightarrow> int" where
  "hardSum hand = (\<Sum>c\<leftarrow>hand. value c) - 10 * int (aceCount hand)"

definition cardOk :: "card \<Rightarrow> bool" where
  "cardOk c = (1 \<le> value c - (if rank c = ''A'' then 10 else 0))"

subsection \<open>Outcomes\<close>

text \<open>
  How a round can end for the player, and the outcome that each of the five messages of
  the script announces.
\<close>

datatype outcome = Win | Lose | Push

definition announced :: "game \<Rightarrow> outcome option" where
  "announced s =
     map_of [(''BUST! You lose.'', Lose), (''Dealer BUSTS! You Win!'', Win),
             (''You Win!'', Win), (''Dealer Wins.'', Lose), (''Push (Tie).'', Push)]
       (msgText (els s))"

subsection \<open>The deal that opens a round\<close>

text \<open>
  The state in which \<^verbatim>\<open>startNewGame\<close> begins to deal: the round reset, and a deck
  created and shuffled if there was none. \<open>dealN rnd n\<close> is \<open>n\<close> calls of
  \<^verbatim>\<open>dealCard\<close> in a row, with the cards they return.
\<close>

definition roundStart :: "(nat \<Rightarrow> rat) \<Rightarrow> game \<Rightarrow> game" where
  "roundStart rnd s =
     (let s0 = (hideMessage s)\<lparr> gameOver := False, playerHand := [], dealerHand := [] \<rparr>;
          s1 = s0\<lparr> els := (els s0)\<lparr> btnHitDisabled := False, btnStandDisabled := False,
                                    btnNewDisabled := True \<rparr> \<rparr>
      in if length (deck s1) = 0 then shuffleDeck rnd (createDeck s1) else s1)"

fun dealN :: "(nat \<Rightarrow> rat) \<Rightarrow> nat \<Rightarrow> game \<Rightarrow> card option list \<times> game" where
  "dealN rnd 0 s = ([], s)"
| "dealN rnd (Suc n) s =
     (case dealCard rnd s of
        (c, s1) \<Rightarrow> (case dealN rnd n s1 of (cs, s2) \<Rightarrow> (c # cs, s2)))"

text \<open>
  What \<^verbatim>\<open>startNewGame\<close> does once the four cards are dealt, \<open>t\<close> being the state the
  fourth deal leaves: the hands, the rendering with the dealer's first card face down, and
  the end of the round on a player's 21.
\<close>

definition openRound :: "card \<Rightarrow> card \<Rightarrow> card \<Rightarrow> card \<Rightarrow> game \<Rightarrow> game" where
  "openRound c1 c2 c3 c4 t =
     (let s7 = renderTable False (t\<lparr> playerHand := [c1, c3], dealerHand := [c2, c4] \<rparr>)
      in if calculateScore [c1, c3] = 21 then handleRoundEnd s7 else s7)"

text \<open>
  \<open>rndKeep\<close> makes every step of a shuffle of at most 52 cards swap a card with itself:
  \<open>\<lfloor>51/52 * (i + 1)\<rfloor> = i\<close> for \<open>i \<le> 51\<close>. \<open>rndSwapAt n\<close> does the same except at call
  \<open>n\<close>, where it answers 0, so that the card at the index of that step is swapped with the
  card at index 0. \<open>rndBlackjack\<close> moves the ace and the king of spades to the positions 0
  and 2 in the first two steps of the first shuffle.
\<close>

definition rndKeep :: "nat \<Rightarrow> rat" where
  "rndKeep k = 51 / 52"

definition rndSwapAt :: "nat \<Rightarrow> nat \<Rightarrow> rat" where
  "rndSwapAt n k = (if k = n then 0 else 51 / 52)"

definition rndBlackjack :: "nat \<Rightarrow> rat" where
  "rndBlackjack k = (if k = 0 then 0 else if k = 1 then 2 / 51 else 51 / 52)"

text \<open>
  The round that the page opens with when the first shuffle leaves the deck in the order
  of its creation: the player holds the 2 and the 4 of clubs, the dealer the 3 and the 5.
\<close>

definition firstRound :: game where
  "firstRound = (case boot rndKeep blankPage of Inr s \<Rightarrow> s | Inl e \<Rightarrow> initial blankPage)"

text \<open>
  A round that has ended with three cards left to deal: the deck in the order of its
  creation, 49 cards dealt, one shuffle (51 random calls) behind.
\<close>

definition lateState :: game where
  "lateState = freshState\<lparr> gameOver := True, deckIndex := 49, randomCalls := 51 \<rparr>"

text \<open>
  The reading of ``consecutive deck positions'': the player's two cards are at the
  positions \<open>i\<close> and \<open>i + 2\<close> of the deck \<open>d\<close> and the dealer's at \<open>i + 1\<close> and \<open>i + 3\<close>;
  and that some position of \<open>d\<close> is such an \<open>i\<close>.
\<close>

definition consecutiveDeal :: "card list \<Rightarrow> nat \<Rightarrow> card list \<Rightarrow> card list \<Rightarrow> bool" where
  "consecutiveDeal d i ph dh =
     (i + 4 \<le> length d \<and> ph = [d ! i, d ! (i + 2)] \<and> dh = [d ! (i + 1), d ! (i + 3)])"

definition dealtConsecutively :: "card list \<Rightarrow> card list \<Rightarrow> card list \<Rightarrow> bool" where
  "dealtConsecutively d ph dh = list_ex (\<lambda>i. consecutiveDeal d i ph dh) [0..<length d]"

text \<open>Eleven rounds in which the player only stands.\<close>

definition standEleven :: "click list" where
  "standEleven = concat (replicate 11 [ClickStand, ClickNew])"

text \<open>The cards of both hands, as pairs of rank and suit.\<close>

definition cardsHeld :: "game \<Rightarrow> (string \<times> suit) list" where
  "cardsHeld s = map (\<lambda>c. (rank c, suit c)) (playerHand s @ dealerHand s)"

text \<open>The same round with all 52 cards dealt.\<close>

definition spentState :: game where
  "spentState = lateState\<lparr> deckIndex := 52 \<rparr>"

text \<open>
  The state that \<^verbatim>\<open>startNewGame\<close> leaves, and two rounds it starts: \<open>lateRound\<close> from
  \<open>lateState\<close>, where the fourth card is dealt after a shuffle that swaps the last card
  of the deck with the first; \<open>blackjackRound\<close> at the load of the page, after a first
  shuffle that gives the player the ace and the king of spades.
\<close>

definition startedRound :: "(nat \<Rightarrow> rat) \<Rightarrow> game \<Rightarrow> game" where
  "startedRound rnd s = (case startNewGame rnd s of Inr s' \<Rightarrow> s' | Inl e \<Rightarrow> s)"

definition lateRound :: game where
  "lateRound = startedRound (rndSwapAt 51) lateState"

definition blackjackRound :: game where
  "blackjackRound = startedRound rndBlackjack (shuffleDeck rndBlackjack freshState)"

text \<open>
  Two clicks on Stand before the first timer fires, and then the three timers that the
  two calls set between them. \<open>dealerCards\<close> is the dealer's hand as pairs of rank and
  suit.
\<close>

definition doubleStand :: "event list" where
  "doubleStand = [Click ClickStand, Click ClickStand, TimerFires, TimerFires, TimerFires]"

definition dealerCards :: "game \<Rightarrow> (string \<times> suit) list" where
  "dealerCards s = map (\<lambda>c. (rank c, suit c)) (dealerHand s)"

section \<open>Properties\<close>

subsection \<open>The deck as created\<close>

lemma parseInt_ranks:
  "parseInt ''2'' = Some 2" "parseInt ''3'' = Some 3" "parseInt ''4'' = Some 4"
  "parseInt ''5'' = Some 5" "parseInt ''6'' = Some 6" "parseInt ''7'' = Some 7"
  "parseInt ''8'' = Some 8" "parseInt ''9'' = Some 9" "parseInt ''10'' = Some 10"
  "parseInt ''J'' = None" "parseInt ''Q'' = None" "parseInt ''K'' = None"
  "parseInt ''A'' = None"
  by (simp_all add: parseInt_def isDigit_def digitVal_def)

lemma makeCard_value:
  "r \<in> set ranks \<Longrightarrow> value (makeCard s r) = blackjackValue r"
  by (auto simp: ranks_def makeCard_def parseInt_ranks blackjackValue_def)

lemma makeCard_sel [simp]: "rank (makeCard s r) = r" "suit (makeCard s r) = s"
  by (simp_all add: makeCard_def Let_def)

lemma newDeck_set: "set newDeck = (\<lambda>(s, r). makeCard s r) ` (set suits \<times> set ranks)"
  unfolding newDeck_def by auto

lemma newDeck_values:
  "c \<in> set newDeck \<Longrightarrow> value c = blackjackValue (rank c)"
  by (auto simp: newDeck_set makeCard_value)

lemma newDeck_pairs: "map (\<lambda>c. (suit c, rank c)) newDeck = List.product suits ranks"
  by (simp add: newDeck_def suits_def ranks_def makeCard_def)

lemma newDeck_length: "length newDeck = 52"
  by (simp add: newDeck_def suits_def ranks_def)

subsection \<open>Scoring\<close>

lemma scoreLoop_eq:
  "scoreLoop hand (score, aces) = (score + (\<Sum>c\<leftarrow>hand. value c), aces + aceCount hand)"
  by (induction hand arbitrary: score aces) (simp_all add: aceCount_def)

lemma calculateScore_eq:
  "calculateScore hand = aceLoop (\<Sum>c\<leftarrow>hand. value c) (aceCount hand)"
  by (simp add: calculateScore_def scoreLoop_eq)

lemma valuations_set:
  "set (valuations hand) = (\<lambda>k. hardTotal hand + 10 * int k) ` {..aceCount hand}"
proof (induction hand)
  case Nil
  show ?case by (simp add: hardTotal_def aceCount_def)
next
  case (Cons c hand)
  show ?case
  proof (cases "rank c = ''A''")
    case False
    with Cons show ?thesis
      by (simp add: hardTotal_def aceCount_def image_image add.assoc)
  next
    case True
    have "{..Suc (aceCount hand)} = {..aceCount hand} \<union> Suc ` {..aceCount hand}"
    proof (rule set_eqI)
      fix x
      show "x \<in> {..Suc (aceCount hand)} \<longleftrightarrow>
            x \<in> {..aceCount hand} \<union> Suc ` {..aceCount hand}"
        by (cases x) auto
    qed
    with True Cons show ?thesis
      by (simp add: hardTotal_def aceCount_def image_image image_Un algebra_simps)
  qed
qed

lemma total_eq:
  "\<forall>c\<in>set hand. value c = blackjackValue (rank c) \<Longrightarrow>
   (\<Sum>c\<leftarrow>hand. value c) = hardTotal hand + 10 * int (aceCount hand)"
  by (induction hand) (auto simp: hardTotal_def aceCount_def blackjackValue_def)

text \<open>
  What the second loop returns when it starts from \<open>t + 10 * a\<close> with \<open>a\<close> aces: one of
  the totals \<open>t + 10 * k\<close>, at most 21 unless it is \<open>t\<close> itself, and not below any such
  total that is at most 21.
\<close>

lemma aceLoop_props:
  "aceLoop (t + 10 * int a) a \<in> (\<lambda>k. t + 10 * int k) ` {..a} \<and>
   (aceLoop (t + 10 * int a) a \<le> 21 \<or> aceLoop (t + 10 * int a) a = t) \<and>
   (\<forall>k\<le>a. t + 10 * int k \<le> 21 \<longrightarrow> t + 10 * int k \<le> aceLoop (t + 10 * int a) a)"
proof (induction a)
  case 0
  show ?case by simp
next
  case (Suc a)
  define u where "u = t + 10 * int (Suc a)"
  have e: "u - 10 = t + 10 * int a" by (simp add: u_def)
  have m: "u \<in> (\<lambda>k. t + 10 * int k) ` {..Suc a}" unfolding u_def by blast
  show ?case
  proof (cases "u > 21")
    case True
    hence r: "aceLoop u (Suc a) = aceLoop (t + 10 * int a) a"
      using e by simp
    have "\<forall>k\<le>Suc a. t + 10 * int k \<le> 21 \<longrightarrow> k \<le> a"
      using True by (auto simp: u_def le_Suc_eq)
    with Suc show ?thesis unfolding u_def [symmetric] r
      by (auto simp: atMost_Suc)
  next
    case False
    hence r: "aceLoop u (Suc a) = u"
      by simp
    have "\<forall>k\<le>Suc a. t + 10 * int k \<le> u" by (simp add: u_def)
    with False m show ?thesis unfolding u_def [symmetric] r by simp
  qed
qed

lemma aceLoop_best:
  assumes "set vs = (\<lambda>k. t + 10 * int k) ` {..a}"
  shows "aceLoop (t + 10 * int a) a =
     (let ok = filter (\<lambda>v. v \<le> 21) vs in if ok = [] then t else Max (set ok))"
proof -
  let ?r = "aceLoop (t + 10 * int a) a"
  note p = aceLoop_props [of t a]
  show ?thesis
  proof (cases "filter (\<lambda>v. v \<le> 21) vs = []")
    case True
    hence "\<forall>v\<in>set vs. \<not> v \<le> 21" by (simp add: filter_empty_conv)
    moreover have "?r \<in> set vs" using p assms by simp
    ultimately have "\<not> ?r \<le> 21" by blast
    with p have "?r = t" by blast
    with True show ?thesis by simp
  next
    case False
    then obtain v where v: "v \<in> set vs" "v \<le> 21"
      by (auto simp: filter_empty_conv)
    then obtain k where k: "k \<le> a" "v = t + 10 * int k" using assms by auto
    have up: "\<forall>w\<in>set (filter (\<lambda>v. v \<le> 21) vs). w \<le> ?r"
      using p assms by auto
    have "t \<le> v" using k by simp
    hence "?r \<le> 21" using p v by auto
    hence "?r \<in> set (filter (\<lambda>v. v \<le> 21) vs)" using p assms by simp
    hence "Max (set (filter (\<lambda>v. v \<le> 21) vs)) = ?r"
      using up by (intro Max_eqI) auto
    with False show ?thesis by simp
  qed
qed

text \<open>
  Claim C1. For every hand of cards of the deck, \<open>calculateScore\<close> is the sum of the
  cards' blackjack values (2 to 10 at face value, J, Q, K as 10, each ace as 11) put
  through the reducing loop, which takes 10 off per ace while the total exceeds 21 and
  aces remain; and it is the best score of the hand: the largest valuation that is at
  most 21, each ace counting 1 or 11, when there is one, and otherwise the total with
  every ace as 1.
\<close>

theorem calculateScore_blackjack:
  assumes "set hand \<subseteq> set newDeck"
  shows "calculateScore hand =
           aceLoop (\<Sum>c\<leftarrow>hand. blackjackValue (rank c)) (aceCount hand)
       \<and> calculateScore hand = bestScore hand"
proof -
  have v: "\<forall>c\<in>set hand. value c = blackjackValue (rank c)"
    using assms newDeck_values by blast
  hence "(\<Sum>c\<leftarrow>hand. value c) = (\<Sum>c\<leftarrow>hand. blackjackValue (rank c))"
    by (intro arg_cong [where f = sum_list] map_cong) simp_all
  hence a: "calculateScore hand =
      aceLoop (\<Sum>c\<leftarrow>hand. blackjackValue (rank c)) (aceCount hand)"
    by (simp add: calculateScore_eq)
  have "calculateScore hand =
      aceLoop (hardTotal hand + 10 * int (aceCount hand)) (aceCount hand)"
    using total_eq [OF v] by (simp add: calculateScore_eq)
  also have "\<dots> = bestScore hand"
    unfolding bestScore_def by (rule aceLoop_best) (rule valuations_set)
  finally show ?thesis using a by simp
qed

text \<open>An ace, a king and an ace: 32 comes down to 22 and then to 12.\<close>

theorem calculateScore_blackjack_witness:
  "set [makeCard Clubs ''A'', makeCard Hearts ''K'', makeCard Spades ''A''] \<subseteq> set newDeck
   \<and> calculateScore [makeCard Clubs ''A'', makeCard Hearts ''K'', makeCard Spades ''A''] = 12
   \<and> bestScore [makeCard Clubs ''A'', makeCard Hearts ''K'', makeCard Spades ''A''] = 12"
proof -
  have h: "set [makeCard Clubs ''A'', makeCard Hearts ''K'', makeCard Spades ''A'']
      \<subseteq> set newDeck"
    by (simp add: newDeck_set suits_def ranks_def)
  have c: "calculateScore [makeCard Clubs ''A'', makeCard Hearts ''K'', makeCard Spades ''A'']
      = 12"
    by (simp add: calculateScore_def makeCard_def parseInt_ranks eval_nat_numeral)
  show ?thesis using h c calculateScore_blackjack [OF h] by simp
qed

subsection \<open>Shuffling and dealing\<close>

lemma random_index_le:
  fixes r :: rat
  assumes "0 \<le> r" "r < 1"
  shows "nat \<lfloor>r * of_nat (i + 1)\<rfloor> \<le> i"
proof -
  have "r * of_nat (i + 1) < 1 * of_nat (i + 1)"
    using assms(2) by (intro mult_strict_right_mono) simp_all
  hence "\<lfloor>r * of_nat (i + 1)\<rfloor> < int (i + 1)"
    by (simp add: floor_less_iff)
  thus ?thesis by linarith
qed

lemma shuffleLoop_length: "length (shuffleLoop rnd k i d) = length d"
  by (induction i arbitrary: k d) (simp_all add: Let_def)

lemma shuffleLoop_mset:
  "random_ok rnd \<Longrightarrow> i < length d \<Longrightarrow> mset (shuffleLoop rnd k i d) = mset d"
proof (induction i arbitrary: k d)
  case 0
  then show ?case by simp
next
  case (Suc i)
  let ?j = "nat \<lfloor>rnd k * of_nat (Suc i + 1)\<rfloor>"
  have j: "?j \<le> Suc i"
    using Suc.prems(1) random_index_le [of "rnd k" "Suc i"] by (simp add: random_ok_def)
  hence "?j < length d" using Suc.prems(2) by simp
  hence "mset (d[Suc i := d ! ?j, ?j := d ! Suc i]) = mset d"
    using Suc.prems(2) by (simp add: mset_swap)
  moreover have "mset (shuffleLoop rnd (k + 1) i (d[Suc i := d ! ?j, ?j := d ! Suc i]))
      = mset (d[Suc i := d ! ?j, ?j := d ! Suc i])"
    using Suc.prems by (intro Suc.IH) simp_all
  ultimately show ?case by (simp add: Let_def)
qed

lemma shuffleDeck_mset:
  "random_ok rnd \<Longrightarrow> mset (deck (shuffleDeck rnd s)) = mset (deck s)"
  by (cases "deck s = []") (simp_all add: shuffleDeck_def shuffleLoop_mset)

text \<open>
  Claim C6. \<open>shuffleDeck\<close> permutes the deck in place: whatever the deck holds, the
  multiset of cards after the shuffle is the multiset before; and it resets the deal
  position \<open>deckIndex\<close> to 0.
\<close>

theorem shuffleDeck_permutes:
  assumes "random_ok rnd"
  shows "mset (deck (shuffleDeck rnd s)) = mset (deck s) \<and> deckIndex (shuffleDeck rnd s) = 0"
  using assms by (simp add: shuffleDeck_mset) (simp add: shuffleDeck_def)

theorem shuffleDeck_permutes_witness:
  "random_ok rndHalf
   \<and> mset (deck (shuffleDeck rndHalf freshState)) = mset (deck freshState)
   \<and> deckIndex (shuffleDeck rndHalf freshState) = 0"
proof -
  have h: "random_ok rndHalf" by (simp add: random_ok_def rndHalf_def)
  show ?thesis using h shuffleDeck_permutes [OF h, of freshState] by simp
qed

subsection \<open>Dealing one card\<close>

lemma dealCard_in_range:
  "deckIndex s < length (deck s) \<Longrightarrow>
   dealCard rnd s = (Some (deck s ! deckIndex s), s\<lparr> deckIndex := deckIndex s + 1 \<rparr>)"
  by (simp add: dealCard_def)

lemma shuffleDeck_sel [simp]:
  "length (deck (shuffleDeck rnd s)) = length (deck s)"
  "deckIndex (shuffleDeck rnd s) = 0"
  "playerHand (shuffleDeck rnd s) = playerHand s"
  "dealerHand (shuffleDeck rnd s) = dealerHand s"
  "gameOver (shuffleDeck rnd s) = gameOver s"
  "wins (shuffleDeck rnd s) = wins s"
  "losses (shuffleDeck rnd s) = losses s"
  "busts (shuffleDeck rnd s) = busts s"
  "els (shuffleDeck rnd s) = els s"
  by (simp_all add: shuffleDeck_def shuffleLoop_length)

lemma dealCard_reshuffle:
  "deck s \<noteq> [] \<Longrightarrow> length (deck s) \<le> deckIndex s \<Longrightarrow>
   dealCard rnd s = (Some (deck (shuffleDeck rnd s) ! 0), (shuffleDeck rnd s)\<lparr> deckIndex := 1 \<rparr>)"
  by (simp add: dealCard_def Let_def)

lemma dealCard_empty:
  "deck s = [] \<Longrightarrow> fst (dealCard rnd s) = None"
  by (simp add: dealCard_def)

lemma dealCard_props:
  assumes "random_ok rnd" "deck s \<noteq> []"
  shows "\<exists>c s1. dealCard rnd s = (Some c, s1) \<and> c \<in> set (deck s) \<and>
           mset (deck s1) = mset (deck s) \<and> playerHand s1 = playerHand s \<and>
           dealerHand s1 = dealerHand s \<and> gameOver s1 = gameOver s \<and> wins s1 = wins s \<and>
           losses s1 = losses s \<and> busts s1 = busts s \<and> els s1 = els s"
proof (cases "deckIndex s < length (deck s)")
  case True
  thus ?thesis by (simp add: dealCard_in_range)
next
  case False
  let ?t = "shuffleDeck rnd s"
  have m: "mset (deck ?t) = mset (deck s)" using assms(1) by (rule shuffleDeck_mset)
  have "deck ?t ! 0 \<in> set (deck ?t)" using assms(2) by (intro nth_mem) simp
  hence "deck ?t ! 0 \<in> set (deck s)" using mset_eq_setD [OF m] by simp
  with False assms(2) m show ?thesis by (simp add: dealCard_reshuffle)
qed

subsection \<open>The dealer's turn\<close>

lemma aceLoop_lower: "t - 10 * int a \<le> aceLoop t a"
proof (induction a arbitrary: t)
  case 0
  show ?case by simp
next
  case (Suc a)
  have "t - 10 - 10 * int a \<le> aceLoop (t - 10) a" by (rule Suc.IH)
  thus ?case by simp
qed

lemma calculateScore_lower:
  "(\<Sum>c\<leftarrow>hand. value c) - 10 * int (aceCount hand) \<le> calculateScore hand"
  by (simp add: calculateScore_eq aceLoop_lower)

lemma hardSum_snoc:
  "hardSum (hand @ [c]) = hardSum hand + (value c - (if rank c = ''A'' then 10 else 0))"
  by (simp add: hardSum_def aceCount_def)

lemma renderTable_sel [simp]:
  "deck (renderTable b s) = deck s"
  "deckIndex (renderTable b s) = deckIndex s"
  "playerHand (renderTable b s) = playerHand s"
  "dealerHand (renderTable b s) = dealerHand s"
  "gameOver (renderTable b s) = gameOver s"
  "wins (renderTable b s) = wins s"
  "losses (renderTable b s) = losses s"
  "busts (renderTable b s) = busts s"
  "randomCalls (renderTable b s) = randomCalls s"
  by (simp_all add: renderTable_def)

lemma renderTable_els [simp]:
  "msgText (els (renderTable b s)) = msgText (els s)"
  "msgColor (els (renderTable b s)) = msgColor (els s)"
  "msgShow (els (renderTable b s)) = msgShow (els s)"
  "btnHitDisabled (els (renderTable b s)) = btnHitDisabled (els s)"
  "btnStandDisabled (els (renderTable b s)) = btnStandDisabled (els s)"
  "btnNewDisabled (els (renderTable b s)) = btnNewDisabled (els s)"
  "winCount (els (renderTable b s)) = winCount (els s)"
  "lossCount (els (renderTable b s)) = lossCount (els s)"
  "bustCount (els (renderTable b s)) = bustCount (els s)"
  by (simp_all add: renderTable_def)

subsection \<open>The end of a round\<close>

lemmas round_defs = handleRoundEnd_def showMessage_def endGame_def updateStats_def Let_def

lemma handleRoundEnd_hands [simp]:
  "playerHand (handleRoundEnd s) = playerHand s"
  "dealerHand (handleRoundEnd s) = dealerHand s"
  "deck (handleRoundEnd s) = deck s"
  "deckIndex (handleRoundEnd s) = deckIndex s"
  "randomCalls (handleRoundEnd s) = randomCalls s"
  "gameOver (handleRoundEnd s)"
  by (simp_all add: round_defs)

text \<open>
  Claim C3. \<open>handleRoundEnd\<close> gives every round exactly one outcome: the player loses
  with more than 21; otherwise wins if the dealer has more than 21 or the player's score
  is strictly higher; loses if the dealer's is strictly higher; and the round is a push
  exactly when neither score exceeds 21 and the two are equal. Exactly one of the counters
  \<open>wins\<close>, \<open>losses\<close>, \<open>busts\<close> goes up by 1, except on a push, which leaves all three
  as they were; the page shows the counters, and the round is over.
\<close>

theorem handleRoundEnd_outcome:
  "announced (handleRoundEnd s) =
     Some (if 21 < calculateScore (playerHand s) then Lose
           else if 21 < calculateScore (dealerHand s)
                 \<or> calculateScore (dealerHand s) < calculateScore (playerHand s) then Win
           else if calculateScore (playerHand s) < calculateScore (dealerHand s) then Lose
           else Push)
   \<and> (announced (handleRoundEnd s) = Some Push \<longleftrightarrow>
        calculateScore (playerHand s) \<le> 21 \<and> calculateScore (dealerHand s) \<le> 21
        \<and> calculateScore (playerHand s) = calculateScore (dealerHand s))
   \<and> (wins (handleRoundEnd s), losses (handleRoundEnd s), busts (handleRoundEnd s)) =
       (case announced (handleRoundEnd s) of
          Some Win \<Rightarrow> (wins s + 1, losses s, busts s)
        | Some Lose \<Rightarrow> (if 21 < calculateScore (playerHand s)
                         then (wins s, losses s, busts s + 1)
                         else (wins s, losses s + 1, busts s))
        | _ \<Rightarrow> (wins s, losses s, busts s))
   \<and> winCount (els (handleRoundEnd s)) = wins (handleRoundEnd s)
   \<and> lossCount (els (handleRoundEnd s)) = losses (handleRoundEnd s)
   \<and> bustCount (els (handleRoundEnd s)) = busts (handleRoundEnd s)
   \<and> msgShow (els (handleRoundEnd s))
   \<and> gameOver (handleRoundEnd s)"
  by (simp add: round_defs announced_def)

subsection \<open>The player's hit\<close>

text \<open>
  Claim C5. \<open>playerHit\<close> on a round that is not over adds exactly one card, the one
  \<open>dealCard\<close> returns, to the player's hand. It ends the round exactly when the new
  score exceeds 21, as a bust: \<open>busts\<close> goes up by 1, the hit and stand buttons are
  disabled and the message announces a loss. Otherwise the round goes on and the three
  counters, their display and the two buttons are unchanged.
\<close>

theorem playerHit_one_card:
  assumes "random_ok rnd" "\<not> gameOver s" "deck s \<noteq> []"
  shows "\<exists>c s'. playerHit rnd s = Inr s' \<and> fst (dealCard rnd s) = Some c
      \<and> playerHand s' = playerHand s @ [c] \<and> dealerHand s' = dealerHand s
      \<and> (gameOver s' \<longleftrightarrow> 21 < calculateScore (playerHand s'))
      \<and> (if 21 < calculateScore (playerHand s')
          then busts s' = busts s + 1 \<and> wins s' = wins s \<and> losses s' = losses s
             \<and> btnHitDisabled (els s') \<and> btnStandDisabled (els s')
             \<and> \<not> btnNewDisabled (els s')
             \<and> announced s' = Some Lose \<and> bustCount (els s') = busts s'
          else busts s' = busts s \<and> wins s' = wins s \<and> losses s' = losses s
             \<and> btnHitDisabled (els s') = btnHitDisabled (els s)
             \<and> btnStandDisabled (els s') = btnStandDisabled (els s)
             \<and> winCount (els s') = winCount (els s)
             \<and> lossCount (els s') = lossCount (els s)
             \<and> bustCount (els s') = bustCount (els s))"
proof -
  obtain c s1 where d: "dealCard rnd s = (Some c, s1)" "c \<in> set (deck s)"
      "mset (deck s1) = mset (deck s)" "playerHand s1 = playerHand s"
      "dealerHand s1 = dealerHand s" "gameOver s1 = gameOver s" "wins s1 = wins s"
      "losses s1 = losses s" "busts s1 = busts s" "els s1 = els s"
    using dealCard_props [OF assms(1,3)] by blast
  show ?thesis
    using assms(2) d by (simp add: playerHit_def round_defs announced_def)
qed

subsection \<open>Starting a round\<close>

lemma dealCard_playerHand_update:
  "dealCard rnd (s\<lparr> playerHand := h \<rparr>) =
     (fst (dealCard rnd s), (snd (dealCard rnd s))\<lparr> playerHand := h \<rparr>)"
  by (simp add: dealCard_def shuffleDeck_def Let_def)

lemma dealCard_dealerHand_update:
  "dealCard rnd (s\<lparr> dealerHand := h \<rparr>) =
     (fst (dealCard rnd s), (snd (dealCard rnd s))\<lparr> dealerHand := h \<rparr>)"
  by (simp add: dealCard_def shuffleDeck_def Let_def)

lemma roundStart_sel [simp]:
  "playerHand (roundStart rnd s) = []"
  "dealerHand (roundStart rnd s) = []"
  "\<not> gameOver (roundStart rnd s)"
  "wins (roundStart rnd s) = wins s"
  "losses (roundStart rnd s) = losses s"
  "busts (roundStart rnd s) = busts s"
  "\<not> btnHitDisabled (els (roundStart rnd s))"
  "\<not> btnStandDisabled (els (roundStart rnd s))"
  "btnNewDisabled (els (roundStart rnd s))"
  "winCount (els (roundStart rnd s)) = winCount (els s)"
  "lossCount (els (roundStart rnd s)) = lossCount (els s)"
  "bustCount (els (roundStart rnd s)) = bustCount (els s)"
  by (simp_all add: roundStart_def hideMessage_def createDeck_def Let_def)

lemma roundStart_deck:
  "deck s \<noteq> [] \<Longrightarrow> deck (roundStart rnd s) = deck s \<and> deckIndex (roundStart rnd s) = deckIndex s"
  by (simp add: roundStart_def hideMessage_def Let_def)

lemma roundStart_mset:
  "random_ok rnd \<Longrightarrow>
   mset (deck (roundStart rnd s)) = (if deck s = [] then mset newDeck else mset (deck s))"
  by (simp add: roundStart_def hideMessage_def Let_def shuffleDeck_mset createDeck_def)

lemma newDeck_nonempty: "newDeck \<noteq> []"
  using newDeck_length by auto

lemma roundStart_nonempty: "random_ok rnd \<Longrightarrow> deck (roundStart rnd s) \<noteq> []"
  using roundStart_mset [of rnd s] newDeck_nonempty
  by (metis mset_zero_iff)

lemma mset_nonempty: "mset xs = mset ys \<Longrightarrow> ys \<noteq> [] \<Longrightarrow> xs \<noteq> []"
  by auto

lemma dealN_four:
  assumes "random_ok rnd" "deck r \<noteq> []"
  shows "\<exists>c1 c2 c3 c4 t1 t2 t3 t.
           dealCard rnd r = (Some c1, t1) \<and> dealCard rnd t1 = (Some c2, t2) \<and>
           dealCard rnd t2 = (Some c3, t3) \<and> dealCard rnd t3 = (Some c4, t) \<and>
           dealN rnd 4 r = ([Some c1, Some c2, Some c3, Some c4], t) \<and>
           mset (deck t) = mset (deck r) \<and> playerHand t = playerHand r \<and>
           dealerHand t = dealerHand r \<and> gameOver t = gameOver r \<and> wins t = wins r \<and>
           losses t = losses r \<and> busts t = busts r \<and> els t = els r"
proof -
  obtain c1 t1 where d1: "dealCard rnd r = (Some c1, t1)"
      "mset (deck t1) = mset (deck r)" "playerHand t1 = playerHand r"
      "dealerHand t1 = dealerHand r" "gameOver t1 = gameOver r" "wins t1 = wins r"
      "losses t1 = losses r" "busts t1 = busts r" "els t1 = els r"
    using dealCard_props [OF assms] by blast
  have n1: "deck t1 \<noteq> []" using d1(2) assms(2) by (rule mset_nonempty)
  obtain c2 t2 where d2: "dealCard rnd t1 = (Some c2, t2)"
      "mset (deck t2) = mset (deck t1)" "playerHand t2 = playerHand t1"
      "dealerHand t2 = dealerHand t1" "gameOver t2 = gameOver t1" "wins t2 = wins t1"
      "losses t2 = losses t1" "busts t2 = busts t1" "els t2 = els t1"
    using dealCard_props [OF assms(1) n1] by blast
  have n2: "deck t2 \<noteq> []" using d2(2) n1 by (rule mset_nonempty)
  obtain c3 t3 where d3: "dealCard rnd t2 = (Some c3, t3)"
      "mset (deck t3) = mset (deck t2)" "playerHand t3 = playerHand t2"
      "dealerHand t3 = dealerHand t2" "gameOver t3 = gameOver t2" "wins t3 = wins t2"
      "losses t3 = losses t2" "busts t3 = busts t2" "els t3 = els t2"
    using dealCard_props [OF assms(1) n2] by blast
  have n3: "deck t3 \<noteq> []" using d3(2) n2 by (rule mset_nonempty)
  obtain c4 t where d4: "dealCard rnd t3 = (Some c4, t)"
      "mset (deck t) = mset (deck t3)" "playerHand t = playerHand t3"
      "dealerHand t = dealerHand t3" "gameOver t = gameOver t3" "wins t = wins t3"
      "losses t = losses t3" "busts t = busts t3" "els t = els t3"
    using dealCard_props [OF assms(1) n3] by blast
  have "dealN rnd 4 r = ([Some c1, Some c2, Some c3, Some c4], t)"
    using d1(1) d2(1) d3(1) d4(1) by (simp add: eval_nat_numeral)
  thus ?thesis using d1 d2 d3 d4 by simp
qed

lemma startNewGame_unfold:
  "startNewGame rnd s =
     (case dealCard rnd (roundStart rnd s) of
           (None, _) \<Rightarrow> Inl TypeError
         | (Some c1, s3) \<Rightarrow>
      (case dealCard rnd (s3\<lparr> playerHand := playerHand s3 @ [c1] \<rparr>) of
           (None, _) \<Rightarrow> Inl TypeError
         | (Some c2, s4) \<Rightarrow>
      (case dealCard rnd (s4\<lparr> dealerHand := dealerHand s4 @ [c2] \<rparr>) of
           (None, _) \<Rightarrow> Inl TypeError
         | (Some c3, s5) \<Rightarrow>
      (case dealCard rnd (s5\<lparr> playerHand := playerHand s5 @ [c3] \<rparr>) of
           (None, _) \<Rightarrow> Inl TypeError
         | (Some c4, s6) \<Rightarrow>
             (let s7 = renderTable False (s6\<lparr> dealerHand := dealerHand s6 @ [c4] \<rparr>);
                  pScore = calculateScore (playerHand s7)
              in Inr (if pScore = 21 then handleRoundEnd s7 else s7))))))"
  unfolding startNewGame_def roundStart_def Let_def by (rule refl)

lemma startNewGame_eq:
  assumes "random_ok rnd"
  shows "\<exists>c1 c2 c3 c4 t.
           dealN rnd 4 (roundStart rnd s) = ([Some c1, Some c2, Some c3, Some c4], t) \<and>
           startNewGame rnd s = Inr (openRound c1 c2 c3 c4 t) \<and>
           mset (deck t) = mset (deck (roundStart rnd s)) \<and>
           gameOver t = gameOver (roundStart rnd s) \<and> wins t = wins s \<and>
           losses t = losses s \<and> busts t = busts s \<and> els t = els (roundStart rnd s)"
proof -
  let ?r = "roundStart rnd s"
  have ne: "deck ?r \<noteq> []" using assms by (rule roundStart_nonempty)
  obtain c1 c2 c3 c4 t1 t2 t3 t where d:
      "dealCard rnd ?r = (Some c1, t1)" "dealCard rnd t1 = (Some c2, t2)"
      "dealCard rnd t2 = (Some c3, t3)" "dealCard rnd t3 = (Some c4, t)"
      "dealN rnd 4 ?r = ([Some c1, Some c2, Some c3, Some c4], t)"
      "mset (deck t) = mset (deck ?r)" "playerHand t = playerHand ?r"
      "dealerHand t = dealerHand ?r" "gameOver t = gameOver ?r" "wins t = wins ?r"
      "losses t = losses ?r" "busts t = busts ?r" "els t = els ?r"
    using dealN_four [OF assms ne] by blast
  have p1: "playerHand t1 = []" "dealerHand t1 = []"
    using d(1) by (auto simp: dealCard_def Let_def split: if_splits)
  have p2: "dealerHand t2 = []"
    using d(2) p1 by (auto simp: dealCard_def Let_def split: if_splits)
  have "startNewGame rnd s = Inr (openRound c1 c2 c3 c4 t)"
    unfolding startNewGame_unfold
    using d(1-4) p1 p2
    by (simp add: dealCard_playerHand_update dealCard_dealerHand_update openRound_def Let_def)
  thus ?thesis using d by simp
qed

lemma startNewGame_started:
  "random_ok rnd \<Longrightarrow> startNewGame rnd s = Inr (startedRound rnd s)"
  using startNewGame_eq [of rnd s] by (auto simp: startedRound_def)

subsection \<open>Standing\<close>

lemma newDeck_cardOk: "c \<in> set newDeck \<Longrightarrow> cardOk c"
  by (auto simp: newDeck_set cardOk_def makeCard_value blackjackValue_def ranks_def)

lemma deck_invariant:
  assumes "mset (deck s) = mset newDeck"
  shows "deck s \<noteq> []" "\<forall>c\<in>set (deck s). cardOk c" "length (deck s) = 52"
proof -
  show "deck s \<noteq> []" using assms newDeck_nonempty by auto
  have "set (deck s) = set newDeck" using assms by (rule mset_eq_setD)
  thus "\<forall>c\<in>set (deck s). cardOk c" using newDeck_cardOk by blast
  show "length (deck s) = 52" using mset_eq_length [OF assms] newDeck_length by simp
qed

lemma settle_nil [simp]: "settle rnd (s, []) = Some (Inr s)"
  by (subst settle.simps) simp

lemma step_ClickHit:
  "step rnd ClickHit s =
     (if btnHitDisabled (els s) then Some (Inr s) else Some (playerHit rnd s))"
  by (cases "playerHit rnd s") (simp_all add: step_def)

lemma step_ClickNew:
  "step rnd ClickNew s =
     (if btnNewDisabled (els s) then Some (Inr s) else Some (startNewGame rnd s))"
  by (cases "startNewGame rnd s") (simp_all add: step_def)

lemma step_ClickStand:
  "step rnd ClickStand s =
     (if btnStandDisabled (els s) then Some (Inr s)
      else (case playerStand s of
              (s', None) \<Rightarrow> Some (Inr s')
            | (s', Some d) \<Rightarrow> settle rnd (s', [d])))"
  by (simp add: step_def split: prod.splits option.splits)

text \<open>
  A suspended call whose timers fire with nothing in between draws until the dealer's
  score is at least 17, and then ends the round. The first draw is made whatever the
  score is.
\<close>

lemma settle_total:
  assumes "random_ok rnd"
  shows "deck s \<noteq> [] \<Longrightarrow> \<forall>c\<in>set (deck s). cardOk c \<Longrightarrow>
     \<exists>s1 drawn. settle rnd (s, [d]) = Some (Inr (handleRoundEnd s1)) \<and>
        drawn \<noteq> [] \<and> dealerHand s1 = dealerHand s @ drawn \<and>
        (\<forall>k<length drawn. 0 < k \<longrightarrow> calculateScore (dealerHand s @ take k drawn) < 17) \<and>
        17 \<le> calculateScore (dealerHand s1) \<and>
        set drawn \<subseteq> set (deck s) \<and>
        mset (deck s1) = mset (deck s) \<and> playerHand s1 = playerHand s \<and>
        gameOver s1 = gameOver s \<and> wins s1 = wins s \<and> losses s1 = losses s \<and>
        busts s1 = busts s"
proof (induction "nat (17 - hardSum (dealerHand s))" arbitrary: s d rule: less_induct)
  case less
  obtain c s1 where dc: "dealCard rnd s = (Some c, s1)" "c \<in> set (deck s)"
      "mset (deck s1) = mset (deck s)" "playerHand s1 = playerHand s"
      "dealerHand s1 = dealerHand s" "gameOver s1 = gameOver s" "wins s1 = wins s"
      "losses s1 = losses s" "busts s1 = busts s" "els s1 = els s"
    using dealCard_props [OF assms less.prems(1)] by blast
  define s2 where "s2 = renderTable True (s1\<lparr> dealerHand := dealerHand s1 @ [c] \<rparr>)"
  have h2: "dealerHand s2 = dealerHand s @ [c]" by (simp add: s2_def dc)
  have fr: "mset (deck s2) = mset (deck s)" "playerHand s2 = playerHand s"
      "gameOver s2 = gameOver s" "wins s2 = wins s" "losses s2 = losses s"
      "busts s2 = busts s"
    by (simp_all add: s2_def dc)
  have res: "playerStandResume rnd d s =
      (if calculateScore (dealerHand s @ [c]) < 17
       then Inr (s2, Some (calculateScore (dealerHand s @ [c])))
       else Inr (handleRoundEnd s2, None))"
    using dc(1,5) by (simp add: playerStandResume_def s2_def Let_def)
  show ?case
  proof (cases "calculateScore (dealerHand s @ [c]) < 17")
    case False
    have "settle rnd (s, [d]) = Some (Inr (handleRoundEnd s2))"
      using False res by (subst settle.simps) simp
    moreover have "17 \<le> calculateScore (dealerHand s2)" using False h2 by simp
    moreover have "set [c] \<subseteq> set (deck s)" using dc(2) by simp
    ultimately show ?thesis
      using h2 fr by (intro exI [of _ s2] exI [of _ "[c]"]) simp
  next
    case True
    have stp: "settle rnd (s, [d]) = settle rnd (s2, [calculateScore (dealerHand s @ [c])])"
      using True res by (subst settle.simps) simp
    have set2: "set (deck s2) = set (deck s)"
      using mset_eq_setD [OF fr(1)] .
    have "cardOk c" using less.prems(2) dc(2) by blast
    hence up: "hardSum (dealerHand s) + 1 \<le> hardSum (dealerHand s2)"
      by (simp add: h2 hardSum_snoc cardOk_def)
    have "hardSum (dealerHand s2) < 17"
      using calculateScore_lower [of "dealerHand s2"] True h2 by (simp add: hardSum_def)
    with up have m: "nat (17 - hardSum (dealerHand s2)) < nat (17 - hardSum (dealerHand s))"
      by linarith
    have ne2: "deck s2 \<noteq> []" using set2 less.prems(1) by (metis set_empty)
    have ok2: "\<forall>c\<in>set (deck s2). cardOk c" using set2 less.prems(2) by simp
    from less.hyps [OF m ne2 ok2, of "calculateScore (dealerHand s @ [c])"]
    obtain s' drawn where r:
        "settle rnd (s2, [calculateScore (dealerHand s @ [c])]) = Some (Inr (handleRoundEnd s'))"
        "drawn \<noteq> []" "dealerHand s' = dealerHand s2 @ drawn"
        "\<forall>k<length drawn. 0 < k \<longrightarrow> calculateScore (dealerHand s2 @ take k drawn) < 17"
        "17 \<le> calculateScore (dealerHand s')"
        "set drawn \<subseteq> set (deck s2)"
        "mset (deck s') = mset (deck s2)" "playerHand s' = playerHand s2"
        "gameOver s' = gameOver s2" "wins s' = wins s2" "losses s' = losses s2"
        "busts s' = busts s2"
      by blast
    have pre: "\<forall>k<length (c # drawn). 0 < k \<longrightarrow>
        calculateScore (dealerHand s @ take k (c # drawn)) < 17"
    proof (intro allI impI)
      fix k assume k: "k < length (c # drawn)" "0 < k"
      then obtain k' where k': "k = Suc k'" by (cases k) simp_all
      show "calculateScore (dealerHand s @ take k (c # drawn)) < 17"
      proof (cases "k' = 0")
        case True
        thus ?thesis using k' \<open>calculateScore (dealerHand s @ [c]) < 17\<close> by simp
      next
        case False
        hence "calculateScore (dealerHand s2 @ take k' drawn) < 17"
          using r(4) k k' by simp
        thus ?thesis by (simp add: k' h2)
      qed
    qed
    have sub: "set (c # drawn) \<subseteq> set (deck s)" using r(6) set2 dc(2) by simp
    have hd: "dealerHand s' = dealerHand s @ (c # drawn)" using r(3) h2 by simp
    show ?thesis
      apply (rule exI [of _ s'], rule exI [of _ "c # drawn"])
      using stp r(1) hd pre r(5) sub r(7-12) fr by simp
  qed
qed

text \<open>
  A stand with nothing in between: the call and its timers, one after the other.
\<close>

lemma stand_alone_total:
  assumes "random_ok rnd" "\<not> gameOver s" "\<not> btnStandDisabled (els s)"
    "deck s \<noteq> []" "\<forall>c\<in>set (deck s). cardOk c"
  shows "\<exists>s1 drawn. step rnd ClickStand s = Some (Inr (handleRoundEnd s1)) \<and>
     dealerHand s1 = dealerHand s @ drawn \<and>
     (\<forall>k<length drawn. calculateScore (dealerHand s @ take k drawn) < 17) \<and>
     17 \<le> calculateScore (dealerHand s1) \<and> set drawn \<subseteq> set (deck s) \<and>
     mset (deck s1) = mset (deck s) \<and> playerHand s1 = playerHand s \<and>
     wins s1 = wins s \<and> losses s1 = losses s \<and> busts s1 = busts s"
proof (cases "calculateScore (dealerHand s) < 17")
  case False
  hence "step rnd ClickStand s = Some (Inr (handleRoundEnd (renderTable True s)))"
    using assms(2,3) by (simp add: step_ClickStand playerStand_def Let_def)
  thus ?thesis
    using False by (intro exI [of _ "renderTable True s"] exI [of _ "[]"]) simp
next
  case True
  let ?s = "renderTable True s"
  have st: "step rnd ClickStand s = settle rnd (?s, [calculateScore (dealerHand s)])"
    using True assms(2,3) by (simp add: step_ClickStand playerStand_def Let_def)
  have "\<exists>s1 drawn. settle rnd (?s, [calculateScore (dealerHand s)])
          = Some (Inr (handleRoundEnd s1)) \<and>
        drawn \<noteq> [] \<and> dealerHand s1 = dealerHand ?s @ drawn \<and>
        (\<forall>k<length drawn. 0 < k \<longrightarrow> calculateScore (dealerHand ?s @ take k drawn) < 17) \<and>
        17 \<le> calculateScore (dealerHand s1) \<and>
        set drawn \<subseteq> set (deck ?s) \<and>
        mset (deck s1) = mset (deck ?s) \<and> playerHand s1 = playerHand ?s \<and>
        gameOver s1 = gameOver ?s \<and> wins s1 = wins ?s \<and> losses s1 = losses ?s \<and>
        busts s1 = busts ?s"
    using assms(4,5) by (intro settle_total [OF assms(1)]) simp_all
  then obtain s1 drawn where r:
      "settle rnd (?s, [calculateScore (dealerHand s)]) = Some (Inr (handleRoundEnd s1))"
      "dealerHand s1 = dealerHand s @ drawn"
      "\<forall>k<length drawn. 0 < k \<longrightarrow> calculateScore (dealerHand s @ take k drawn) < 17"
      "17 \<le> calculateScore (dealerHand s1)" "set drawn \<subseteq> set (deck s)"
      "mset (deck s1) = mset (deck s)" "playerHand s1 = playerHand s"
      "wins s1 = wins s" "losses s1 = losses s" "busts s1 = busts s"
    by auto
  have "\<forall>k<length drawn. calculateScore (dealerHand s @ take k drawn) < 17"
  proof (intro allI impI)
    fix k assume "k < length drawn"
    thus "calculateScore (dealerHand s @ take k drawn) < 17"
      using r(3) True by (cases "k = 0") simp_all
  qed
  with st r show ?thesis by auto
qed

subsection \<open>Every click returns, and the deck stays the deck\<close>

lemma openRound_sel [simp]:
  "deck (openRound c1 c2 c3 c4 t) = deck t"
  "deckIndex (openRound c1 c2 c3 c4 t) = deckIndex t"
  "randomCalls (openRound c1 c2 c3 c4 t) = randomCalls t"
  "playerHand (openRound c1 c2 c3 c4 t) = [c1, c3]"
  "dealerHand (openRound c1 c2 c3 c4 t) = [c2, c4]"
  by (simp_all add: openRound_def Let_def)

lemma openRound_gameOver:
  "gameOver (openRound c1 c2 c3 c4 t) \<longleftrightarrow> calculateScore [c1, c3] = 21 \<or> gameOver t"
  by (simp add: openRound_def Let_def)

lemma step_total:
  assumes "random_ok rnd" "mset (deck s) = mset newDeck"
  shows "\<exists>s'. step rnd c s = Some (Inr s') \<and> mset (deck s') = mset newDeck"
proof (cases c)
  case ClickHit
  note inv = deck_invariant [OF assms(2)]
  obtain c s1 where d: "dealCard rnd s = (Some c, s1)" "mset (deck s1) = mset (deck s)"
    using dealCard_props [OF assms(1) inv(1)] by blast
  show ?thesis
    using ClickHit assms(2) d by (simp add: step_ClickHit playerHit_def round_defs)
next
  case ClickStand
  note inv = deck_invariant [OF assms(2)]
  show ?thesis
  proof (cases "gameOver s \<or> btnStandDisabled (els s)")
    case True
    thus ?thesis using ClickStand assms(2) by (auto simp: step_ClickStand playerStand_def)
  next
    case False
    hence g: "\<not> gameOver s" "\<not> btnStandDisabled (els s)" by simp_all
    obtain s1 where "step rnd ClickStand s = Some (Inr (handleRoundEnd s1))"
        "mset (deck s1) = mset (deck s)"
      using stand_alone_total [OF assms(1) g inv(1,2)] by blast
    thus ?thesis using ClickStand assms(2) by simp
  qed
next
  case ClickNew
  obtain c1 c2 c3 c4 t where r: "startNewGame rnd s = Inr (openRound c1 c2 c3 c4 t)"
      "mset (deck t) = mset (deck (roundStart rnd s))"
    using startNewGame_eq [OF assms(1), of s] by blast
  have "mset (deck t) = mset newDeck"
    using r(2) roundStart_mset [OF assms(1), of s] assms(2) by simp
  thus ?thesis using ClickNew r(1) assms(2) by (simp add: step_ClickNew)
qed

lemma run_total:
  assumes "random_ok rnd"
  shows "mset (deck s) = mset newDeck \<Longrightarrow>
         \<exists>s'. run rnd cs s = Some (Inr s') \<and> mset (deck s') = mset newDeck"
proof (induction cs arbitrary: s)
  case Nil
  thus ?case by simp
next
  case (Cons c cs)
  obtain s1 where s1: "step rnd c s = Some (Inr s1)" "mset (deck s1) = mset newDeck"
    using step_total [OF assms Cons.prems] by blast
  from Cons.IH [OF s1(2)] s1(1) show ?case by simp
qed

lemma boot_total:
  assumes "random_ok rnd"
  shows "\<exists>s0. boot rnd d = Inr s0 \<and> mset (deck s0) = mset newDeck"
proof -
  let ?s = "shuffleDeck rnd (createDeck (initial d))"
  have m: "mset (deck ?s) = mset newDeck"
    using shuffleDeck_mset [OF assms, of "createDeck (initial d)"] by (simp add: createDeck_def)
  obtain c1 c2 c3 c4 t where r: "startNewGame rnd ?s = Inr (openRound c1 c2 c3 c4 t)"
      "mset (deck t) = mset (deck (roundStart rnd ?s))"
    using startNewGame_eq [OF assms, of ?s] by blast
  have "mset (deck t) = mset newDeck"
    using r(2) roundStart_mset [OF assms, of ?s] m by simp
  thus ?thesis using r(1) by (simp add: boot_def)
qed

text \<open>
  The same holds of every event, whatever is suspended, and so of every order of clicks
  and timers.
\<close>

lemma fire_total:
  assumes "random_ok rnd" "mset (deck s) = mset newDeck"
  shows "\<exists>s' w'. fire rnd e (s, w) = Inr (s', w') \<and> mset (deck s') = mset newDeck"
proof -
  note inv = deck_invariant [OF assms(2)]
  obtain c s1 where d: "dealCard rnd s = (Some c, s1)" "mset (deck s1) = mset (deck s)"
    using dealCard_props [OF assms(1) inv(1)] by blast
  show ?thesis
  proof (cases e)
    case TimerFires
    show ?thesis
    proof (cases w)
      case Nil
      thus ?thesis using TimerFires assms(2) by simp
    next
      case (Cons d' w')
      thus ?thesis
        using TimerFires assms(2) d by (simp add: playerStandResume_def Let_def)
    qed
  next
    case (Click c')
    show ?thesis
    proof (cases c')
      case ClickHit
      thus ?thesis using Click assms(2) d by (simp add: playerHit_def round_defs)
    next
      case ClickStand
      thus ?thesis using Click assms(2) by (simp add: playerStand_def Let_def)
    next
      case ClickNew
      obtain c1 c2 c3 c4 t where r: "startNewGame rnd s = Inr (openRound c1 c2 c3 c4 t)"
          "mset (deck t) = mset (deck (roundStart rnd s))"
        using startNewGame_eq [OF assms(1), of s] by blast
      have "mset (deck t) = mset newDeck"
        using r(2) roundStart_mset [OF assms(1), of s] assms(2) by simp
      thus ?thesis using ClickNew Click r(1) assms(2) by simp
    qed
  qed
qed

lemma play_total:
  assumes "random_ok rnd"
  shows "mset (deck s) = mset newDeck \<Longrightarrow>
         \<exists>s' w'. play rnd es (s, w) = Inr (s', w') \<and> mset (deck s') = mset newDeck"
proof (induction es arbitrary: s w)
  case Nil
  thus ?case by simp
next
  case (Cons e es)
  obtain s1 w1 where s1: "fire rnd e (s, w) = Inr (s1, w1)" "mset (deck s1) = mset newDeck"
    using fire_total [OF assms Cons.prems] by blast
  from Cons.IH [OF s1(2), of w1] s1(1) show ?case by simp
qed

text \<open>Every run is a play, in which each stand is followed by its own timers.\<close>

lemma play_append:
  "play rnd (es @ fs) sw =
     (case play rnd es sw of Inl err \<Rightarrow> Inl err | Inr sw' \<Rightarrow> play rnd fs sw')"
  by (induction es arbitrary: sw) (simp_all split: sum.splits)

lemma settle_is_play_aux:
  assumes "settle rnd sw = Some r"
  shows "\<forall>s'. r = Inr s' \<longrightarrow>
           (\<exists>n. play rnd (replicate n TimerFires) sw = Inr (s', []))"
  using assms
proof (induction rule: settle.raw_induct [rotated 1, consumes 1])
  case (1 later rnd sw r)
  show ?case
  proof (intro allI impI)
    fix s' assume r: "r = Inr s'"
    show "\<exists>n. play rnd (replicate n TimerFires) sw = Inr (s', [])"
    proof (cases "snd sw = []")
      case True
      have "sw = (s', [])" using True 1(2) r by (cases sw) auto
      hence "play rnd (replicate 0 TimerFires) sw = Inr (s', [])" by simp
      thus ?thesis by blast
    next
      case False
      with 1(2) obtain sw' where f: "fire rnd TimerFires sw = Inr sw'"
          and s: "later rnd sw' = Some r"
        using r by (auto split: sum.splits)
      from 1(1) [OF s] r obtain n
        where "play rnd (replicate n TimerFires) sw' = Inr (s', [])"
        by blast
      hence "play rnd (replicate (Suc n) TimerFires) sw = Inr (s', [])"
        using f by simp
      thus ?thesis by blast
    qed
  qed
qed

lemma settle_is_play:
  "settle rnd sw = Some (Inr s') \<Longrightarrow>
   \<exists>n. play rnd (replicate n TimerFires) sw = Inr (s', [])"
  using settle_is_play_aux [of rnd sw "Inr s'"] by simp

lemma step_is_play:
  assumes "step rnd c s = Some (Inr s')"
  shows "\<exists>es. play rnd es (s, []) = Inr (s', [])"
proof -
  from assms obtain sw where f: "fire rnd (Click c) (s, []) = Inr sw"
      and st: "settle rnd sw = Some (Inr s')"
    by (auto simp: step_def split: sum.splits)
  from settle_is_play [OF st] obtain n
    where "play rnd (replicate n TimerFires) sw = Inr (s', [])" by blast
  hence "play rnd (Click c # replicate n TimerFires) (s, []) = Inr (s', [])"
    using f by simp
  thus ?thesis by blast
qed

lemma run_is_play:
  "run rnd cs s = Some (Inr s') \<Longrightarrow> \<exists>es. play rnd es (s, []) = Inr (s', [])"
proof (induction cs arbitrary: s)
  case Nil
  hence "play rnd [] (s, []) = Inr (s', [])" by simp
  thus ?case by blast
next
  case (Cons c cs)
  then obtain s1 where s1: "step rnd c s = Some (Inr s1)" and r: "run rnd cs s1 = Some (Inr s')"
    by (auto split: option.splits sum.splits)
  from step_is_play [OF s1] obtain es where es: "play rnd es (s, []) = Inr (s1, [])" by blast
  from Cons.IH [OF r] obtain fs where fs: "play rnd fs (s1, []) = Inr (s', [])" by blast
  have "play rnd (es @ fs) (s, []) = Inr (s', [])"
    using es fs by (simp add: play_append)
  thus ?case by blast
qed

lemma rndKeep_ok: "random_ok rndKeep"
  by (simp add: random_ok_def rndKeep_def)

lemma rndSwapAt_ok: "random_ok (rndSwapAt n)"
  by (simp add: random_ok_def rndSwapAt_def)

lemma rndBlackjack_ok: "random_ok rndBlackjack"
  by (simp add: random_ok_def rndBlackjack_def)

lemma firstRound_boot: "boot rndKeep blankPage = Inr firstRound"
  using boot_total [OF rndKeep_ok, of blankPage] by (auto simp: firstRound_def)

lemma firstRound_deck: "mset (deck firstRound) = mset newDeck"
  using boot_total [OF rndKeep_ok, of blankPage] by (auto simp: firstRound_def)

lemma firstRound_going: "\<not> gameOver firstRound"
  by code_simp

lemma firstRound_hands:
  "cardsHeld firstRound = [(''2'', Clubs), (''4'', Clubs), (''3'', Clubs), (''5'', Clubs)]"
  by code_simp

lemma dealN_in_range:
  "deckIndex r + n \<le> length (deck r) \<Longrightarrow>
   dealN rnd n r = (map Some (take n (drop (deckIndex r) (deck r))),
                    r\<lparr> deckIndex := deckIndex r + n \<rparr>)"
proof (induction n arbitrary: r)
  case 0
  show ?case by simp
next
  case (Suc n)
  hence lt: "deckIndex r < length (deck r)" by simp
  let ?r1 = "r\<lparr> deckIndex := deckIndex r + 1 \<rparr>"
  have "deckIndex ?r1 + n \<le> length (deck ?r1)" using Suc.prems by simp
  from Suc.IH [OF this] have ih: "dealN rnd n ?r1 =
      (map Some (take n (drop (Suc (deckIndex r)) (deck r))), r\<lparr> deckIndex := deckIndex r + Suc n \<rparr>)"
    by simp
  have "take (Suc n) (drop (deckIndex r) (deck r))
      = deck r ! deckIndex r # take n (drop (Suc (deckIndex r)) (deck r))"
    using lt by (simp add: Cons_nth_drop_Suc [symmetric])
  thus ?case using lt ih by (simp add: dealCard_in_range)
qed

lemma firstRound_index: "deckIndex firstRound = 4"
  by code_simp

lemma dealCard_exhausted:
  "deck r \<noteq> [] \<Longrightarrow> length (deck r) \<le> deckIndex r \<Longrightarrow>
   dealCard rnd r = dealCard rnd (shuffleDeck rnd r)"
  by (simp add: dealCard_reshuffle dealCard_in_range)

lemma dealN_exhausted:
  assumes "length (deck r) \<le> deckIndex r" "Suc n \<le> length (deck r)"
  shows "dealN rnd (Suc n) r =
           (map Some (take (Suc n) (deck (shuffleDeck rnd r))),
            (shuffleDeck rnd r)\<lparr> deckIndex := Suc n \<rparr>)"
proof -
  have ne: "deck r \<noteq> []" using assms(2) by auto
  have "dealN rnd (Suc n) r = dealN rnd (Suc n) (shuffleDeck rnd r)"
    using dealCard_exhausted [OF ne assms(1), of rnd] by simp
  also have "\<dots> = (map Some (take (Suc n) (drop (deckIndex (shuffleDeck rnd r)) (deck (shuffleDeck rnd r)))),
            (shuffleDeck rnd r)\<lparr> deckIndex := deckIndex (shuffleDeck rnd r) + Suc n \<rparr>)"
    using assms(2) by (intro dealN_in_range) simp
  finally show ?thesis by simp
qed

lemma four_positions:
  assumes "map Some (take 4 (drop i d)) = [Some c1, Some c2, Some c3, Some c4]" "i + 4 \<le> length d"
  shows "consecutiveDeal d i [c1, c3] [c2, c4]"
proof -
  have "take 4 (drop i d) = [c1, c2, c3, c4]"
    using assms(1) by (simp add: map_eq_Cons_conv)
  hence n: "\<And>k. k < 4 \<Longrightarrow> d ! (i + k) = [c1, c2, c3, c4] ! k"
    using assms(2) by (metis nth_take nth_drop le_add1 order_trans add_leE)
  have "d ! (i + 0) = c1" "d ! (i + 1) = c2" "d ! (i + 2) = c3" "d ! (i + 3) = c4"
    using n [of 0] n [of 1] n [of 2] n [of 3] by simp_all
  thus ?thesis using assms(2) by (simp add: consecutiveDeal_def)
qed

lemma dealN_add:
  "dealN rnd (a + b) r =
     (case dealN rnd a r of
        (cs1, r1) \<Rightarrow> (case dealN rnd b r1 of (cs2, r2) \<Rightarrow> (cs1 @ cs2, r2)))"
  by (induction a arbitrary: r) (simp_all split: prod.splits)

lemma shuffleDeck_deckIndex:
  "shuffleDeck rnd (r\<lparr> deckIndex := i \<rparr>) = shuffleDeck rnd r"
  by (simp add: shuffleDeck_def)

text \<open>
  A run of deals that begins on the cards left and goes past the end of the deck: the
  cards left, then the first cards of the deck as \<open>dealCard\<close> shuffles it.
\<close>

lemma dealN_wrap:
  assumes "deckIndex r \<le> length (deck r)" "length (deck r) < deckIndex r + n"
    "deckIndex r + n \<le> 2 * length (deck r)"
  shows "dealN rnd n r =
     (map Some (drop (deckIndex r) (deck r)
                @ take (deckIndex r + n - length (deck r)) (deck (shuffleDeck rnd r))),
      (shuffleDeck rnd r)\<lparr> deckIndex := deckIndex r + n - length (deck r) \<rparr>)"
proof -
  define k where "k = length (deck r) - deckIndex r"
  define m where "m = deckIndex r + n - length (deck r) - 1"
  have n: "n = k + Suc m" using assms by (simp add: k_def m_def)
  let ?r1 = "r\<lparr> deckIndex := deckIndex r + k \<rparr>"
  have "deckIndex r + k \<le> length (deck r)" using assms(1) by (simp add: k_def)
  hence a: "dealN rnd k r = (map Some (take k (drop (deckIndex r) (deck r))), ?r1)"
    by (rule dealN_in_range)
  have tk: "take k (drop (deckIndex r) (deck r)) = drop (deckIndex r) (deck r)"
    by (simp add: k_def)
  have i1: "deckIndex ?r1 = length (deck r)" using assms(1) by (simp add: k_def)
  have "Suc m \<le> length (deck ?r1)" using assms by (simp add: m_def)
  moreover have "length (deck ?r1) \<le> deckIndex ?r1" using i1 by simp
  ultimately have b: "dealN rnd (Suc m) ?r1 =
      (map Some (take (Suc m) (deck (shuffleDeck rnd ?r1))),
       (shuffleDeck rnd ?r1)\<lparr> deckIndex := Suc m \<rparr>)"
    by (intro dealN_exhausted)
  have sm: "Suc m = deckIndex r + n - length (deck r)" using assms by (simp add: m_def)
  have "dealN rnd (k + Suc m) r =
      (case dealN rnd (Suc m) ?r1 of
         (cs2, r2) \<Rightarrow> (map Some (take k (drop (deckIndex r) (deck r))) @ cs2, r2))"
    by (simp only: dealN_add a prod.case)
  also have "\<dots> =
      (map Some (take k (drop (deckIndex r) (deck r)))
         @ map Some (take (Suc m) (deck (shuffleDeck rnd ?r1))),
       (shuffleDeck rnd ?r1)\<lparr> deckIndex := Suc m \<rparr>)"
    by (simp only: b prod.case)
  also have "\<dots> =
      (map Some (drop (deckIndex r) (deck r) @ take (Suc m) (deck (shuffleDeck rnd r))),
       (shuffleDeck rnd r)\<lparr> deckIndex := Suc m \<rparr>)"
    by (simp add: tk shuffleDeck_deckIndex)
  finally have "dealN rnd n r =
      (map Some (drop (deckIndex r) (deck r) @ take (Suc m) (deck (shuffleDeck rnd r))),
       (shuffleDeck rnd r)\<lparr> deckIndex := Suc m \<rparr>)"
    unfolding n [symmetric] .
  thus ?thesis unfolding sm .
qed

subsection \<open>What the table shows\<close>

lemma map_enumerate_from:
  "(\<And>i c. n \<le> i \<Longrightarrow> g (i, c) = f c) \<Longrightarrow> map g (enumerate n cs) = map f cs"
proof (induction cs arbitrary: n)
  case Nil
  show ?case by simp
next
  case (Cons c cs)
  have "map g (enumerate (Suc n) cs) = map f cs"
    by (rule Cons.IH) (simp add: Cons.prems)
  thus ?case by (simp add: Cons.prems)
qed

lemma renderTable_dealer:
  "dealerHandEls (els (renderTable b s)) =
     (if b then map (\<lambda>c. createCardEl c False) (dealerHand s)
      else case dealerHand s of
             [] \<Rightarrow> []
           | c # cs \<Rightarrow> HiddenEl # map (\<lambda>c. createCardEl c False) cs)"
proof (cases b)
  case True
  have "map (\<lambda>(index, c). if index = 0 \<and> \<not> True then createCardEl c True
                           else createCardEl c False) (enumerate 0 (dealerHand s))
      = map (\<lambda>c. createCardEl c False) (dealerHand s)"
    by (rule map_enumerate_from) simp
  thus ?thesis using True by (simp add: renderTable_def)
next
  case False
  show ?thesis
  proof (cases "dealerHand s")
    case Nil
    thus ?thesis using False by (simp add: renderTable_def)
  next
    case (Cons c cs)
    have "map (\<lambda>(index, c). if index = 0 \<and> \<not> False then createCardEl c True
                             else createCardEl c False) (enumerate (Suc 0) cs)
        = map (\<lambda>c. createCardEl c False) cs"
      by (rule map_enumerate_from) simp
    thus ?thesis using False Cons by (simp add: renderTable_def createCardEl_def)
  qed
qed

lemma renderTable_player:
  "playerHandEls (els (renderTable b s)) = map (\<lambda>c. createCardEl c False) (playerHand s)"
  "dealerScoreText (els (renderTable b s)) =
     (if b then Some (calculateScore (dealerHand s)) else None)"
  by (simp_all add: renderTable_def)

lemma openRound_page:
  "dealerHandEls (els (openRound c1 c2 c3 c4 t)) =
     (if calculateScore [c1, c3] = 21 then [createCardEl c2 False, createCardEl c4 False]
      else [HiddenEl, createCardEl c4 False])"
  "playerHandEls (els (openRound c1 c2 c3 c4 t)) = [createCardEl c1 False, createCardEl c3 False]"
  "dealerScoreText (els (openRound c1 c2 c3 c4 t)) =
     (if calculateScore [c1, c3] = 21 then Some (calculateScore [c2, c4]) else None)"
  by (simp_all add: openRound_def Let_def round_defs renderTable_dealer renderTable_player)

subsection \<open>Three concrete rounds\<close>

text \<open>
  \<open>lateState\<close> is what the game comes to, in the fields that \<open>startNewGame\<close> reads,
  after ten rounds of standing and one more stand, from the load of the page with
  \<open>rndSwapAt 51\<close>.
\<close>

lemma lateState_reached:
  "(case boot (rndSwapAt 51) blankPage of
      Inr s0 \<Rightarrow>
        (case run (rndSwapAt 51) (butlast standEleven) s0 of
           Some (Inr s) \<Rightarrow>
             deck s = deck lateState \<and> deckIndex s = deckIndex lateState
             \<and> randomCalls s = randomCalls lateState \<and> gameOver s = gameOver lateState
             \<and> \<not> btnNewDisabled (els s)
         | _ \<Rightarrow> False)
    | Inl e \<Rightarrow> False)"
  by code_simp

lemma lateRound_cards:
  "cardsHeld lateRound = [(''Q'', Spades), (''A'', Spades), (''K'', Spades), (''A'', Spades)]"
  by code_simp

lemma lateRound_before:
  "\<not> dealtConsecutively (deck lateState) (playerHand lateRound) (dealerHand lateRound)"
  by code_simp

lemma lateRound_after:
  "\<not> dealtConsecutively (deck lateRound) (playerHand lateRound) (dealerHand lateRound)"
  by code_simp

lemma blackjackRound_scores:
  "calculateScore (playerHand blackjackRound) = 21"
  "calculateScore (dealerHand blackjackRound) = 8"
  by code_simp+

lemma duplicate_run:
  "(case boot (rndSwapAt 51) blankPage of
      Inr s0 \<Rightarrow>
        (case run (rndSwapAt 51) standEleven s0 of
           Some (Inr s') \<Rightarrow>
             cardsHeld s' = [(''Q'', Spades), (''A'', Spades), (''K'', Spades), (''A'', Spades)]
         | _ \<Rightarrow> False)
    | Inl e \<Rightarrow> False)"
  by code_simp

subsection \<open>The dealer's rule\<close>

text \<open>
  When the player stands on a round that is not over and nothing else happens until the
  dealer has finished, with a deck of cards as \<open>createDeck\<close> makes them, the stand comes
  to an end, and the dealer has drawn the cards \<open>drawn\<close> one after the other: before each
  draw the dealer's hand scored less than 17, and when the drawing ends the dealer's score
  is at least 17.
\<close>

lemma dealer_rule_undisturbed:
  assumes "random_ok rnd" "\<not> gameOver s" "\<not> btnStandDisabled (els s)"
    "deck s \<noteq> []" "set (deck s) \<subseteq> set newDeck"
  shows "\<exists>s' drawn. step rnd ClickStand s = Some (Inr s')
      \<and> dealerHand s' = dealerHand s @ drawn
      \<and> (\<forall>k<length drawn. calculateScore (dealerHand s @ take k drawn) < 17)
      \<and> 17 \<le> calculateScore (dealerHand s')
      \<and> set drawn \<subseteq> set (deck s)
      \<and> playerHand s' = playerHand s
      \<and> gameOver s'"
proof -
  have ok: "\<forall>c\<in>set (deck s). cardOk c" using assms(5) newDeck_cardOk by blast
  obtain s1 drawn where r: "step rnd ClickStand s = Some (Inr (handleRoundEnd s1))"
      "dealerHand s1 = dealerHand s @ drawn"
      "\<forall>k<length drawn. calculateScore (dealerHand s @ take k drawn) < 17"
      "17 \<le> calculateScore (dealerHand s1)" "set drawn \<subseteq> set (deck s)"
      "playerHand s1 = playerHand s"
    using stand_alone_total [OF assms(1-4) ok] by blast
  thus ?thesis
    by (intro exI [of _ "handleRoundEnd s1"] exI [of _ drawn]) simp
qed

text \<open>
  Claim C2. The claim holds of the stand that nothing disturbs, and fails when Stand is
  clicked again while the first call waits: during the wait \<open>gameOver\<close> is false and the
  button enabled, and a resumed call draws without testing the score again. From
  \<open>firstRound\<close>, reached at the load of the page, the dealer holds the 3 and the 5 of
  clubs. After two clicks on Stand and two timers the dealer has drawn the 6 and the 7,
  scores 21, and the round is over, by the second call; the first call is still suspended,
  with 14 in its \<open>dScore\<close>. Its timer fires and the dealer draws the 8 of clubs, at a
  score of 21.
\<close>

theorem double_stand_draws_at_21:
  "random_ok rndKeep
   \<and> boot rndKeep blankPage = Inr firstRound
   \<and> dealerCards firstRound = [(''3'', Clubs), (''5'', Clubs)]
   \<and> map_sum id (\<lambda>(s, w). (dealerCards s, calculateScore (dealerHand s), gameOver s, w))
        (play rndKeep (take 4 doubleStand) (firstRound, []))
      = Inr ([(''3'', Clubs), (''5'', Clubs), (''6'', Clubs), (''7'', Clubs)], 21, True, [14])
   \<and> map_sum id (\<lambda>(s, w). (dealerCards s, calculateScore (dealerHand s), gameOver s, w))
        (play rndKeep doubleStand (firstRound, []))
      = Inr ([(''3'', Clubs), (''5'', Clubs), (''6'', Clubs), (''7'', Clubs), (''8'', Clubs)],
             29, True, [])"
proof -
  have a: "dealerCards firstRound = [(''3'', Clubs), (''5'', Clubs)]"
    by code_simp
  have b: "map_sum id (\<lambda>(s, w). (dealerCards s, calculateScore (dealerHand s), gameOver s, w))
        (play rndKeep (take 4 doubleStand) (firstRound, []))
      = Inr ([(''3'', Clubs), (''5'', Clubs), (''6'', Clubs), (''7'', Clubs)], 21, True, [14])"
    by code_simp
  have c: "map_sum id (\<lambda>(s, w). (dealerCards s, calculateScore (dealerHand s), gameOver s, w))
        (play rndKeep doubleStand (firstRound, []))
      = Inr ([(''3'', Clubs), (''5'', Clubs), (''6'', Clubs), (''7'', Clubs), (''8'', Clubs)],
             29, True, [])"
    by code_simp
  from rndKeep_ok firstRound_boot a b c show ?thesis by blast
qed

subsection \<open>One deck of 52 cards\<close>

text \<open>
  Claim C4. \<open>createDeck\<close> builds exactly 52 cards, one for each pair of the 4 suits and
  the 13 ranks. When \<open>deckIndex\<close> has reached the length of the deck, \<open>dealCard\<close>
  shuffles that same deck in place: the deck it leaves is the shuffled one, with the same
  multiset of cards, none added. A shuffle and a deal keep the length of the deck, and in
  every state reached from the load of the page by clicks the deck has 52 cards.
\<close>

theorem single_deck:
  "length (deck (createDeck s)) = 52
   \<and> map (\<lambda>c. (suit c, rank c)) (deck (createDeck s)) = List.product suits ranks
   \<and> distinct (List.product suits ranks)
   \<and> (random_ok rnd \<and> length (deck s) \<le> deckIndex s \<longrightarrow>
         deck (snd (dealCard rnd s)) = deck (shuffleDeck rnd s)
       \<and> mset (deck (snd (dealCard rnd s))) = mset (deck s))
   \<and> (random_ok rnd \<longrightarrow>
         length (deck (shuffleDeck rnd s)) = length (deck s)
       \<and> length (deck (snd (dealCard rnd s))) = length (deck s))
   \<and> (random_ok rnd \<and> boot rnd d = Inr s0 \<and> run rnd cs s0 = Some (Inr s') \<longrightarrow>
         length (deck s0) = 52 \<and> length (deck s') = 52)"
proof -
  have a: "length (deck (createDeck s)) = 52"
    by (simp add: createDeck_def newDeck_length)
  have b: "map (\<lambda>c. (suit c, rank c)) (deck (createDeck s)) = List.product suits ranks"
    by (simp add: createDeck_def newDeck_pairs)
  have c: "distinct (List.product suits ranks)"
    by (simp add: suits_def ranks_def)
  have d: "random_ok rnd \<and> length (deck s) \<le> deckIndex s \<longrightarrow>
         deck (snd (dealCard rnd s)) = deck (shuffleDeck rnd s)
       \<and> mset (deck (snd (dealCard rnd s))) = mset (deck s)"
    by (simp add: dealCard_def Let_def shuffleDeck_mset)
  have e: "random_ok rnd \<longrightarrow>
         length (deck (shuffleDeck rnd s)) = length (deck s)
       \<and> length (deck (snd (dealCard rnd s))) = length (deck s)"
    by (simp add: dealCard_def Let_def)
  have f: "random_ok rnd \<and> boot rnd d = Inr s0 \<and> run rnd cs s0 = Some (Inr s') \<longrightarrow>
         length (deck s0) = 52 \<and> length (deck s') = 52"
  proof
    assume h: "random_ok rnd \<and> boot rnd d = Inr s0 \<and> run rnd cs s0 = Some (Inr s')"
    hence m0: "mset (deck s0) = mset newDeck" using boot_total [of rnd d] by auto
    hence "mset (deck s') = mset newDeck" using run_total [of rnd s0 cs] h by auto
    thus "length (deck s0) = 52 \<and> length (deck s') = 52"
      using m0 deck_invariant(3) by blast
  qed
  from a b c d e f show ?thesis by blast
qed

theorem single_deck_witness:
  "random_ok rndKeep \<and> length (deck spentState) \<le> deckIndex spentState
   \<and> boot rndKeep blankPage = Inr firstRound
   \<and> run rndKeep [] firstRound = Some (Inr firstRound)
   \<and> deck (snd (dealCard rndKeep spentState)) = deck (shuffleDeck rndKeep spentState)
   \<and> mset (deck (snd (dealCard rndKeep spentState))) = mset (deck spentState)
   \<and> length (deck (snd (dealCard rndKeep spentState))) = length (deck spentState)
   \<and> length (deck firstRound) = 52"
proof -
  have h: "length (deck spentState) \<le> deckIndex spentState"
    by (simp add: spentState_def lateState_def freshState_def createDeck_def newDeck_length)
  have r: "run rndKeep [] firstRound = Some (Inr firstRound)"
    by simp
  show ?thesis
    using rndKeep_ok h firstRound_boot r
      single_deck [of spentState rndKeep blankPage firstRound "[]" firstRound]
    by blast
qed

subsection \<open>A hit in the opening round\<close>

text \<open>
  The player of \<open>firstRound\<close> holds the 2 and the 4 of clubs and is dealt the 6.
\<close>

theorem playerHit_one_card_witness:
  "random_ok rndKeep \<and> \<not> gameOver firstRound \<and> deck firstRound \<noteq> []
   \<and> (\<exists>c s'. playerHit rndKeep firstRound = Inr s' \<and> fst (dealCard rndKeep firstRound) = Some c
      \<and> playerHand s' = playerHand firstRound @ [c] \<and> dealerHand s' = dealerHand firstRound
      \<and> (gameOver s' \<longleftrightarrow> 21 < calculateScore (playerHand s'))
      \<and> (if 21 < calculateScore (playerHand s')
          then busts s' = busts firstRound + 1 \<and> wins s' = wins firstRound
             \<and> losses s' = losses firstRound
             \<and> btnHitDisabled (els s') \<and> btnStandDisabled (els s')
             \<and> \<not> btnNewDisabled (els s')
             \<and> announced s' = Some Lose \<and> bustCount (els s') = busts s'
          else busts s' = busts firstRound \<and> wins s' = wins firstRound
             \<and> losses s' = losses firstRound
             \<and> btnHitDisabled (els s') = btnHitDisabled (els firstRound)
             \<and> btnStandDisabled (els s') = btnStandDisabled (els firstRound)
             \<and> winCount (els s') = winCount (els firstRound)
             \<and> lossCount (els s') = lossCount (els firstRound)
             \<and> bustCount (els s') = bustCount (els firstRound)))"
proof -
  note inv = deck_invariant [OF firstRound_deck]
  show ?thesis
    using rndKeep_ok firstRound_going inv(1)
      playerHit_one_card [OF rndKeep_ok firstRound_going inv(1)]
    by blast
qed

subsection \<open>Losses and busts\<close>


subsection \<open>The opening deal\<close>

text \<open>
  Claim C7, as amended. \<open>startNewGame\<close> empties both hands and then deals exactly two
  cards to the player and two to the dealer, the cards that four calls of \<open>dealCard\<close>
  in a row return, in the order player, dealer, player, dealer. When at least four
  positions of the deck are left to deal, these are the four consecutive positions from
  \<open>deckIndex\<close> on, of a deck that the deal leaves as it was; when none is left, they are
  the positions 0 to 3 of the deck as the first call shuffles it; when one to three are
  left, the first cards are the cards left, from \<open>deckIndex\<close> to the end of the deck,
  \<open>dealCard\<close> then shuffles the deck, and the other cards are the first cards, from
  position 0 on, of the deck as shuffled. The dealer's first card is
  rendered face down, unless the player has 21 and the round ends at once, and face up as
  soon as the table is rendered with the dealer's hand revealed.
\<close>

theorem startNewGame_deal:
  assumes "random_ok rnd"
  shows "playerHand (roundStart rnd s) = [] \<and> dealerHand (roundStart rnd s) = []
    \<and> (\<exists>c1 c2 c3 c4 t s'.
          dealN rnd 4 (roundStart rnd s) = ([Some c1, Some c2, Some c3, Some c4], t)
        \<and> startNewGame rnd s = Inr s'
        \<and> playerHand s' = [c1, c3] \<and> dealerHand s' = [c2, c4]
        \<and> deck s' = deck t \<and> deckIndex s' = deckIndex t
        \<and> (deckIndex (roundStart rnd s) + 4 \<le> length (deck (roundStart rnd s)) \<longrightarrow>
              consecutiveDeal (deck s') (deckIndex (roundStart rnd s))
                (playerHand s') (dealerHand s')
            \<and> deck s' = deck (roundStart rnd s)
            \<and> deckIndex s' = deckIndex (roundStart rnd s) + 4)
        \<and> (length (deck (roundStart rnd s)) \<le> deckIndex (roundStart rnd s)
             \<and> 4 \<le> length (deck (roundStart rnd s)) \<longrightarrow>
              consecutiveDeal (deck s') 0 (playerHand s') (dealerHand s')
            \<and> deck s' = deck (shuffleDeck rnd (roundStart rnd s))
            \<and> deckIndex s' = 4)
        \<and> (deckIndex (roundStart rnd s) < length (deck (roundStart rnd s))
             \<and> length (deck (roundStart rnd s)) < deckIndex (roundStart rnd s) + 4
             \<and> 4 \<le> length (deck (roundStart rnd s)) \<longrightarrow>
              [c1, c2, c3, c4] =
                drop (deckIndex (roundStart rnd s)) (deck (roundStart rnd s))
                @ take (deckIndex (roundStart rnd s) + 4 - length (deck (roundStart rnd s)))
                    (deck s')
            \<and> deck s' = deck (shuffleDeck rnd (roundStart rnd s))
            \<and> deckIndex s' =
                deckIndex (roundStart rnd s) + 4 - length (deck (roundStart rnd s)))
        \<and> dealerHandEls (els s') =
            (if calculateScore (playerHand s') = 21
             then [createCardEl c2 False, createCardEl c4 False]
             else [HiddenEl, createCardEl c4 False])
        \<and> dealerHandEls (els (renderTable True s')) =
            [createCardEl c2 False, createCardEl c4 False])"
proof -
  let ?r = "roundStart rnd s"
  obtain c1 c2 c3 c4 t where d:
      "dealN rnd 4 ?r = ([Some c1, Some c2, Some c3, Some c4], t)"
      "startNewGame rnd s = Inr (openRound c1 c2 c3 c4 t)"
    using startNewGame_eq [OF assms, of s] by blast
  let ?s' = "openRound c1 c2 c3 c4 t"
  have pos: "deckIndex ?r + 4 \<le> length (deck ?r) \<longrightarrow>
              consecutiveDeal (deck ?s') (deckIndex ?r) (playerHand ?s') (dealerHand ?s')
            \<and> deck ?s' = deck ?r \<and> deckIndex ?s' = deckIndex ?r + 4"
  proof
    assume h: "deckIndex ?r + 4 \<le> length (deck ?r)"
    have "dealN rnd 4 ?r = (map Some (take 4 (drop (deckIndex ?r) (deck ?r))),
                    ?r\<lparr> deckIndex := deckIndex ?r + 4 \<rparr>)"
      using h by (rule dealN_in_range)
    hence t: "t = ?r\<lparr> deckIndex := deckIndex ?r + 4 \<rparr>"
      and cs: "map Some (take 4 (drop (deckIndex ?r) (deck ?r)))
                 = [Some c1, Some c2, Some c3, Some c4]"
      using d(1) by simp_all
    show "consecutiveDeal (deck ?s') (deckIndex ?r) (playerHand ?s') (dealerHand ?s')
            \<and> deck ?s' = deck ?r \<and> deckIndex ?s' = deckIndex ?r + 4"
      using four_positions [OF cs h] t by simp
  qed
  have wrap: "length (deck ?r) \<le> deckIndex ?r \<and> 4 \<le> length (deck ?r) \<longrightarrow>
              consecutiveDeal (deck ?s') 0 (playerHand ?s') (dealerHand ?s')
            \<and> deck ?s' = deck (shuffleDeck rnd ?r) \<and> deckIndex ?s' = 4"
  proof
    assume h: "length (deck ?r) \<le> deckIndex ?r \<and> 4 \<le> length (deck ?r)"
    let ?u = "shuffleDeck rnd ?r"
    have "dealN rnd (Suc 3) ?r = (map Some (take (Suc 3) (deck ?u)), ?u\<lparr> deckIndex := Suc 3 \<rparr>)"
      using h by (intro dealN_exhausted) simp_all
    hence e: "dealN rnd 4 ?r = (map Some (take 4 (drop 0 (deck ?u))), ?u\<lparr> deckIndex := 4 \<rparr>)"
      by (simp add: eval_nat_numeral)
    hence t: "t = ?u\<lparr> deckIndex := 4 \<rparr>"
      and cs: "map Some (take 4 (drop 0 (deck ?u))) = [Some c1, Some c2, Some c3, Some c4]"
      using d(1) by simp_all
    have l: "0 + 4 \<le> length (deck ?u)" using h by simp
    show "consecutiveDeal (deck ?s') 0 (playerHand ?s') (dealerHand ?s')
            \<and> deck ?s' = deck ?u \<and> deckIndex ?s' = 4"
      using four_positions [OF cs l] t by simp
  qed
  have mid: "deckIndex ?r < length (deck ?r) \<and> length (deck ?r) < deckIndex ?r + 4
             \<and> 4 \<le> length (deck ?r) \<longrightarrow>
              [c1, c2, c3, c4] =
                drop (deckIndex ?r) (deck ?r)
                @ take (deckIndex ?r + 4 - length (deck ?r)) (deck ?s')
            \<and> deck ?s' = deck (shuffleDeck rnd ?r)
            \<and> deckIndex ?s' = deckIndex ?r + 4 - length (deck ?r)"
  proof
    assume h: "deckIndex ?r < length (deck ?r) \<and> length (deck ?r) < deckIndex ?r + 4
             \<and> 4 \<le> length (deck ?r)"
    let ?u = "shuffleDeck rnd ?r"
    have "dealN rnd 4 ?r =
        (map Some (drop (deckIndex ?r) (deck ?r)
                   @ take (deckIndex ?r + 4 - length (deck ?r)) (deck ?u)),
         ?u\<lparr> deckIndex := deckIndex ?r + 4 - length (deck ?r) \<rparr>)"
      using h by (intro dealN_wrap) simp_all
    hence t: "t = ?u\<lparr> deckIndex := deckIndex ?r + 4 - length (deck ?r) \<rparr>"
      and cs: "map Some (drop (deckIndex ?r) (deck ?r)
                   @ take (deckIndex ?r + 4 - length (deck ?r)) (deck ?u))
                 = map Some [c1, c2, c3, c4]"
      using d(1) by simp_all
    have "drop (deckIndex ?r) (deck ?r) @ take (deckIndex ?r + 4 - length (deck ?r)) (deck ?u)
        = [c1, c2, c3, c4]"
      using cs by (simp only: inj_map_eq_map [OF inj_Some])
    thus "[c1, c2, c3, c4] =
                drop (deckIndex ?r) (deck ?r)
                @ take (deckIndex ?r + 4 - length (deck ?r)) (deck ?s')
            \<and> deck ?s' = deck ?u
            \<and> deckIndex ?s' = deckIndex ?r + 4 - length (deck ?r)"
      using t by simp
  qed
  have shown: "dealerHandEls (els (renderTable True ?s')) =
            [createCardEl c2 False, createCardEl c4 False]"
    by (simp add: renderTable_dealer)
  have f1: "playerHand ?s' = [c1, c3]" "dealerHand ?s' = [c2, c4]"
      "deck ?s' = deck t" "deckIndex ?s' = deckIndex t"
    by simp_all
  have f2: "dealerHandEls (els ?s') =
            (if calculateScore (playerHand ?s') = 21
             then [createCardEl c2 False, createCardEl c4 False]
             else [HiddenEl, createCardEl c4 False])"
    by (simp add: openRound_page)
  have r: "playerHand ?r = []" "dealerHand ?r = []" by simp_all
  from d f1 f2 pos wrap mid shown r show ?thesis by blast
qed

text \<open>
  From \<open>firstRound\<close>, where four cards are dealt, the next round is dealt from the
  positions 4 to 7; from \<open>spentState\<close>, where all 52 are, from the positions 0 to 3;
  from \<open>lateState\<close>, where 49 are, from the positions 49 to 51 and then from position 0
  of the deck as shuffled.
\<close>

theorem startNewGame_deal_witness:
  "random_ok rndKeep
   \<and> deckIndex (roundStart rndKeep firstRound) + 4 \<le> length (deck (roundStart rndKeep firstRound))
   \<and> (\<exists>s'. startNewGame rndKeep firstRound = Inr s'
        \<and> consecutiveDeal (deck s') 4 (playerHand s') (dealerHand s')
        \<and> deck s' = deck firstRound \<and> deckIndex s' = 8)
   \<and> length (deck (roundStart rndKeep spentState)) \<le> deckIndex (roundStart rndKeep spentState)
   \<and> 4 \<le> length (deck (roundStart rndKeep spentState))
   \<and> (\<exists>s'. startNewGame rndKeep spentState = Inr s'
        \<and> consecutiveDeal (deck s') 0 (playerHand s') (dealerHand s')
        \<and> deckIndex s' = 4)
   \<and> deckIndex (roundStart (rndSwapAt 51) lateState)
        < length (deck (roundStart (rndSwapAt 51) lateState))
   \<and> length (deck (roundStart (rndSwapAt 51) lateState))
        < deckIndex (roundStart (rndSwapAt 51) lateState) + 4
   \<and> 4 \<le> length (deck (roundStart (rndSwapAt 51) lateState))
   \<and> (\<exists>c1 c2 c3 c4 s'. startNewGame (rndSwapAt 51) lateState = Inr s'
        \<and> playerHand s' = [c1, c3] \<and> dealerHand s' = [c2, c4]
        \<and> [c1, c2, c3, c4] = drop 49 (deck lateState) @ take 1 (deck s')
        \<and> deck s' = deck (shuffleDeck (rndSwapAt 51) (roundStart (rndSwapAt 51) lateState))
        \<and> deckIndex s' = 1)"
proof -
  note inv = deck_invariant [OF firstRound_deck]
  have r: "deck (roundStart rndKeep firstRound) = deck firstRound"
      "deckIndex (roundStart rndKeep firstRound) = 4"
    using roundStart_deck [OF inv(1), of rndKeep] firstRound_index by simp_all
  have h: "deckIndex (roundStart rndKeep firstRound) + 4
      \<le> length (deck (roundStart rndKeep firstRound))"
    using r inv(3) by simp
  from startNewGame_deal [OF rndKeep_ok, of firstRound] h r
  have a: "\<exists>s'. startNewGame rndKeep firstRound = Inr s'
        \<and> consecutiveDeal (deck s') 4 (playerHand s') (dealerHand s')
        \<and> deck s' = deck firstRound \<and> deckIndex s' = 8"
    by (simp del: roundStart_sel) blast
  have sp: "deck spentState = newDeck" "deckIndex spentState = 52"
    by (simp_all add: spentState_def lateState_def freshState_def createDeck_def)
  have ne: "deck spentState \<noteq> []" using sp newDeck_nonempty by simp
  have r2: "deck (roundStart rndKeep spentState) = newDeck"
      "deckIndex (roundStart rndKeep spentState) = 52"
    using roundStart_deck [OF ne, of rndKeep] sp by simp_all
  have h2: "length (deck (roundStart rndKeep spentState)) \<le> deckIndex (roundStart rndKeep spentState)"
      "4 \<le> length (deck (roundStart rndKeep spentState))"
    using r2 newDeck_length by simp_all
  from startNewGame_deal [OF rndKeep_ok, of spentState] h2
  have b: "\<exists>s'. startNewGame rndKeep spentState = Inr s'
        \<and> consecutiveDeal (deck s') 0 (playerHand s') (dealerHand s')
        \<and> deckIndex s' = 4"
    by (simp del: roundStart_sel) blast
  have ls: "deck lateState = newDeck" "deckIndex lateState = 49"
    by (simp_all add: lateState_def freshState_def createDeck_def)
  have ne3: "deck lateState \<noteq> []" using ls newDeck_nonempty by simp
  have r3: "deck (roundStart (rndSwapAt 51) lateState) = deck lateState"
      "deckIndex (roundStart (rndSwapAt 51) lateState) = 49"
    using roundStart_deck [OF ne3, of "rndSwapAt 51"] ls by simp_all
  have l3: "length (deck (roundStart (rndSwapAt 51) lateState)) = 52"
    using r3 ls newDeck_length by simp
  have h3: "deckIndex (roundStart (rndSwapAt 51) lateState)
        < length (deck (roundStart (rndSwapAt 51) lateState))"
      "length (deck (roundStart (rndSwapAt 51) lateState))
        < deckIndex (roundStart (rndSwapAt 51) lateState) + 4"
      "4 \<le> length (deck (roundStart (rndSwapAt 51) lateState))"
    using r3 l3 by simp_all
  from startNewGame_deal [OF rndSwapAt_ok, of 51 lateState] h3
  have "\<exists>c1 c2 c3 c4 s'. startNewGame (rndSwapAt 51) lateState = Inr s'
        \<and> playerHand s' = [c1, c3] \<and> dealerHand s' = [c2, c4]
        \<and> [c1, c2, c3, c4] =
              drop (deckIndex (roundStart (rndSwapAt 51) lateState))
                (deck (roundStart (rndSwapAt 51) lateState))
              @ take (deckIndex (roundStart (rndSwapAt 51) lateState) + 4
                       - length (deck (roundStart (rndSwapAt 51) lateState))) (deck s')
        \<and> deck s' = deck (shuffleDeck (rndSwapAt 51) (roundStart (rndSwapAt 51) lateState))
        \<and> deckIndex s' = deckIndex (roundStart (rndSwapAt 51) lateState) + 4
              - length (deck (roundStart (rndSwapAt 51) lateState))"
    by (simp del: roundStart_sel) blast
  hence c: "\<exists>c1 c2 c3 c4 s'. startNewGame (rndSwapAt 51) lateState = Inr s'
        \<and> playerHand s' = [c1, c3] \<and> dealerHand s' = [c2, c4]
        \<and> [c1, c2, c3, c4] = drop 49 (deck lateState) @ take 1 (deck s')
        \<and> deck s' = deck (shuffleDeck (rndSwapAt 51) (roundStart (rndSwapAt 51) lateState))
        \<and> deckIndex s' = 1"
    unfolding r3 by (simp add: ls newDeck_length)
  from rndKeep_ok h a h2 b h3 c show ?thesis by blast
qed

text \<open>
  The claim as worded, with ``taken from consecutive deck positions'' for every deal, fails
  when fewer than four positions are left. In \<open>lateState\<close>, which is reached from the load
  of the page (\<open>lateState_reached\<close>), three are: the player is dealt
  the queen and the ace of spades from the positions 49 and 51, the dealer the king from
  position 50 and then, after the shuffle that \<open>dealCard\<close> runs, the card at position 0,
  which is the ace of spades again. The four cards are at consecutive positions neither
  of the deck before the deal nor of the deck after it.
\<close>

theorem startNewGame_not_consecutive:
  "random_ok (rndSwapAt 51)
   \<and> startNewGame (rndSwapAt 51) lateState = Inr lateRound
   \<and> cardsHeld lateRound = [(''Q'', Spades), (''A'', Spades), (''K'', Spades), (''A'', Spades)]
   \<and> \<not> dealtConsecutively (deck lateState) (playerHand lateRound) (dealerHand lateRound)
   \<and> \<not> dealtConsecutively (deck lateRound) (playerHand lateRound) (dealerHand lateRound)"
  using rndSwapAt_ok [of 51] startNewGame_started [OF rndSwapAt_ok, of 51 lateState]
    lateRound_cards lateRound_before lateRound_after
  by (simp add: lateRound_def)

subsection \<open>A player's 21 on the deal\<close>

text \<open>
  Claim C10. \<open>startNewGame\<close> always returns. If the two cards dealt to the player score
  exactly 21, it ends the round at once: the dealer's hand is the two cards of the deal,
  whatever they score, nothing more is dealt, and the outcome is a push when the dealer's
  two cards also score 21 and a win of the player otherwise, counted in \<open>wins\<close>. If the
  player's score is not 21 the round goes on.
\<close>

theorem startNewGame_blackjack:
  assumes "random_ok rnd"
  shows "\<exists>c1 c2 c3 c4 t s'.
          dealN rnd 4 (roundStart rnd s) = ([Some c1, Some c2, Some c3, Some c4], t)
        \<and> startNewGame rnd s = Inr s'
        \<and> playerHand s' = [c1, c3]
        \<and> (calculateScore (playerHand s') = 21 \<longrightarrow>
              gameOver s' \<and> dealerHand s' = [c2, c4]
            \<and> deck s' = deck t \<and> deckIndex s' = deckIndex t
            \<and> announced s' = Some (if calculateScore (dealerHand s') = 21 then Push else Win)
            \<and> wins s' = (if calculateScore (dealerHand s') = 21 then wins s else wins s + 1)
            \<and> losses s' = losses s \<and> busts s' = busts s
            \<and> btnHitDisabled (els s') \<and> btnStandDisabled (els s')
            \<and> \<not> btnNewDisabled (els s'))
        \<and> (calculateScore (playerHand s') \<noteq> 21 \<longrightarrow> \<not> gameOver s')"
proof -
  obtain c1 c2 c3 c4 t where d:
      "dealN rnd 4 (roundStart rnd s) = ([Some c1, Some c2, Some c3, Some c4], t)"
      "startNewGame rnd s = Inr (openRound c1 c2 c3 c4 t)"
      "gameOver t = gameOver (roundStart rnd s)" "wins t = wins s"
      "losses t = losses s" "busts t = busts s"
    using startNewGame_eq [OF assms, of s] by blast
  let ?s' = "openRound c1 c2 c3 c4 t"
  have g: "\<not> gameOver t" using d(3) by simp
  have a: "calculateScore (playerHand ?s') = 21 \<longrightarrow>
              gameOver ?s' \<and> dealerHand ?s' = [c2, c4]
            \<and> deck ?s' = deck t \<and> deckIndex ?s' = deckIndex t
            \<and> announced ?s' = Some (if calculateScore (dealerHand ?s') = 21 then Push else Win)
            \<and> wins ?s' = (if calculateScore (dealerHand ?s') = 21 then wins s else wins s + 1)
            \<and> losses ?s' = losses s \<and> busts ?s' = busts s
            \<and> btnHitDisabled (els ?s') \<and> btnStandDisabled (els ?s')
            \<and> \<not> btnNewDisabled (els ?s')"
    using d(4-6) by (simp add: openRound_gameOver) (simp add: openRound_def round_defs announced_def)
  have b: "calculateScore (playerHand ?s') \<noteq> 21 \<longrightarrow> \<not> gameOver ?s'"
    using g by (simp add: openRound_gameOver)
  have p: "playerHand ?s' = [c1, c3]" by simp
  from d(1,2) p a b show ?thesis by blast
qed

text \<open>
  At the load of the page with \<open>rndBlackjack\<close> the player is dealt the ace and the king
  of spades, the dealer the 3 and the 5 of clubs: the player wins and the dealer, at 8,
  draws nothing.
\<close>

theorem startNewGame_blackjack_witness:
  "random_ok rndBlackjack
   \<and> (\<exists>s'. startNewGame rndBlackjack (shuffleDeck rndBlackjack freshState) = Inr s'
        \<and> calculateScore (playerHand s') = 21
        \<and> calculateScore (dealerHand s') = 8
        \<and> length (dealerHand s') = 2
        \<and> gameOver s' \<and> announced s' = Some Win
        \<and> wins s' = wins (shuffleDeck rndBlackjack freshState) + 1)"
proof -
  let ?s = "shuffleDeck rndBlackjack freshState"
  have e: "startNewGame rndBlackjack ?s = Inr blackjackRound"
    using startNewGame_started [OF rndBlackjack_ok, of ?s] by (simp add: blackjackRound_def)
  from startNewGame_blackjack [OF rndBlackjack_ok, of ?s] e blackjackRound_scores rndBlackjack_ok
  show ?thesis by auto
qed

subsection \<open>Dealt cards stay in the deck\<close>

text \<open>
  Claim C8. A deal removes no card from the deck: \<open>dealCard\<close> leaves the multiset of
  the deck as it was, and in every state reached from the load of the page the deck
  holds the 52 cards, whatever has been dealt. So a shuffle run by \<open>dealCard\<close> in the
  middle of a round puts cards that are in a hand back among the cards to deal, and some
  state reached from the load of the page has the same rank and suit twice among the cards
  of the two hands: after eleven rounds of standing, with the shuffle of \<open>rndSwapAt 51\<close>,
  the player and the dealer both hold the ace of spades.
\<close>

theorem dealt_cards_stay_in_deck:
  "(random_ok rnd \<longrightarrow> mset (deck (snd (dealCard rnd s))) = mset (deck s))
   \<and> (random_ok rnd \<and> boot rnd d = Inr s0 \<and> run rnd cs s0 = Some (Inr s') \<longrightarrow>
        mset (deck s0) = mset newDeck \<and> mset (deck s') = mset newDeck)
   \<and> (\<exists>rnd cs s0 s'. random_ok rnd \<and> boot rnd blankPage = Inr s0
        \<and> run rnd cs s0 = Some (Inr s') \<and> \<not> distinct (cardsHeld s'))"
proof -
  have a: "random_ok rnd \<longrightarrow> mset (deck (snd (dealCard rnd s))) = mset (deck s)"
    by (simp add: dealCard_def Let_def shuffleDeck_mset)
  have b: "random_ok rnd \<and> boot rnd d = Inr s0 \<and> run rnd cs s0 = Some (Inr s') \<longrightarrow>
        mset (deck s0) = mset newDeck \<and> mset (deck s') = mset newDeck"
  proof
    assume h: "random_ok rnd \<and> boot rnd d = Inr s0 \<and> run rnd cs s0 = Some (Inr s')"
    hence m0: "mset (deck s0) = mset newDeck" using boot_total [of rnd d] by auto
    hence "mset (deck s') = mset newDeck" using run_total [of rnd s0 cs] h by auto
    with m0 show "mset (deck s0) = mset newDeck \<and> mset (deck s') = mset newDeck" by simp
  qed
  obtain s0 where s0: "boot (rndSwapAt 51) blankPage = Inr s0" "mset (deck s0) = mset newDeck"
    using boot_total [OF rndSwapAt_ok, of 51 blankPage] by blast
  obtain s' where s': "run (rndSwapAt 51) standEleven s0 = Some (Inr s')"
    using run_total [OF rndSwapAt_ok s0(2), of 51 standEleven] by blast
  have "cardsHeld s' = [(''Q'', Spades), (''A'', Spades), (''K'', Spades), (''A'', Spades)]"
    using duplicate_run s0(1) s' by simp
  hence "\<not> distinct (cardsHeld s')" by simp
  hence c: "\<exists>rnd cs s0 s'. random_ok rnd \<and> boot rnd blankPage = Inr s0
        \<and> run rnd cs s0 = Some (Inr s') \<and> \<not> distinct (cardsHeld s')"
    using rndSwapAt_ok [of 51] s0(1) s' by blast
  from a b c show ?thesis by blast
qed

theorem dealt_cards_stay_in_deck_witness:
  "random_ok rndKeep \<and> boot rndKeep blankPage = Inr firstRound
   \<and> run rndKeep [] firstRound = Some (Inr firstRound)
   \<and> mset (deck (snd (dealCard rndKeep firstRound))) = mset (deck firstRound)
   \<and> mset (deck firstRound) = mset newDeck"
proof -
  have r: "run rndKeep [] firstRound = Some (Inr firstRound)"
    by simp
  show ?thesis
    using rndKeep_ok firstRound_boot r
      dealt_cards_stay_in_deck [of rndKeep firstRound blankPage firstRound "[]" firstRound]
    by blast
qed

end
